theory Spec2Isabelle
  imports Complex_Main "HOL-Library.Sublist"
begin

section \<open>Outreach window planner: data model\<close>

text \<open>
  The types of \<^verbatim>\<open>lib/types\<close>. The string unions become datatypes. \<^verbatim>\<open>ImpactLevel\<close> and
  \<^verbatim>\<open>ConfidenceLevel\<close> are the same union \<^verbatim>\<open>"low" | "medium" | "high"\<close> and share one
  datatype.
\<close>

datatype SignalType =
  sanitation | publicEvent | shelterHours | transitDisruption
  | serviceBottleneck | infrastructureWork | megaEvent | custom

datatype level = low | medium | high

type_synonym ImpactLevel = level
type_synonym ConfidenceLevel = level

datatype WindowStatus = safer | caution | avoid

text \<open>
  A JavaScript \<^verbatim>\<open>Date\<close> holds a time value: a whole number of milliseconds since the epoch,
  or \<^verbatim>\<open>NaN\<close> for an invalid date. \<open>Some t\<close> is the valid date with time value \<open>t\<close>,
  \<open>None\<close> is the invalid date. The ISO 8601 strings of the interfaces (\<^verbatim>\<open>timeRange.start\<close>,
  \<^verbatim>\<open>timeRange.end\<close>) are represented by the date that \<^verbatim>\<open>new Date(string)\<close> gives for them,
  so a string that does not parse is \<open>None\<close>. The time value of a valid date is at most
  8.64e15 in absolute value: \<open>new_Date\<close> below gives no other, and \<open>is_Date\<close> says so of
  a value of this type.
\<close>

type_synonym date = "int option"

record timeRange =
  range_start :: date
  range_end :: date

text \<open>
  \<^verbatim>\<open>Signal\<close>, with the fields the windowing code reads. The fields \<^verbatim>\<open>description\<close>,
  \<^verbatim>\<open>source\<close>, \<^verbatim>\<open>interpretationNotes\<close>, \<^verbatim>\<open>areaContext\<close> and \<^verbatim>\<open>isCustom\<close> are read by
  no function modelled below and are left out.
\<close>

record Signal =
  sid :: string
  signalType :: SignalType
  title :: string
  timeRange :: timeRange
  impactLevel :: ImpactLevel
  confidenceLevel :: ConfidenceLevel

record SignalOverlap =
  oid :: string
  o_signals :: "Signal list"
  o_timeRange :: timeRange
  combinedImpact :: ImpactLevel
  explanation :: string

text \<open>
  Scores are JavaScript numbers. Every score computed below is a finite sum of multiples
  of one half, which double arithmetic computes exactly; they are rationals here.
\<close>

record OutreachWindow =
  wid :: string
  w_timeRange :: timeRange
  status :: WindowStatus
  score :: rat
  annotation :: string
  contributingSignals :: "Signal list"

section \<open>Comparisons and arithmetic on time values\<close>

text \<open>
  \<^verbatim>\<open>a < b\<close> and \<^verbatim>\<open>a <= b\<close> on dates compare the time values; a comparison with \<^verbatim>\<open>NaN\<close>
  is false. \<^verbatim>\<open>a > b\<close> is \<open>date_lt b a\<close> and \<^verbatim>\<open>a >= b\<close> is \<open>date_le b a\<close>.
\<close>

fun date_lt :: "date \<Rightarrow> date \<Rightarrow> bool" where
  "date_lt (Some a) (Some b) = (a < b)"
| "date_lt _ _ = False"

fun date_le :: "date \<Rightarrow> date \<Rightarrow> bool" where
  "date_le (Some a) (Some b) = (a \<le> b)"
| "date_le _ _ = False"

text \<open>
  \<^verbatim>\<open>new Date(Math.min(a.getTime(), b.getTime()))\<close> for two dates, and the same with
  \<^verbatim>\<open>Math.max\<close>: \<^verbatim>\<open>Math.min\<close> and \<^verbatim>\<open>Math.max\<close> give \<^verbatim>\<open>NaN\<close> when an argument is \<^verbatim>\<open>NaN\<close>.
\<close>

fun Math_min :: "date \<Rightarrow> date \<Rightarrow> date" where
  "Math_min (Some a) (Some b) = Some (min a b)"
| "Math_min _ _ = None"

fun Math_max :: "date \<Rightarrow> date \<Rightarrow> date" where
  "Math_max (Some a) (Some b) = Some (max a b)"
| "Math_max _ _ = None"

section \<open>JavaScript numbers\<close>

text \<open>
  A JavaScript number is a double: \<^verbatim>\<open>NaN\<close>, an infinity, or a finite value, which is a
  rational. \<open>Fin x\<close> is the finite number of value \<open>x\<close>; the doubles are among them.
\<close>

datatype number = NaN | NegInf | Fin rat | PosInf

text \<open>\<^verbatim>\<open>a <= b\<close> on numbers; a comparison with \<^verbatim>\<open>NaN\<close> is false.\<close>

fun number_le :: "number \<Rightarrow> number \<Rightarrow> bool" where
  "number_le NaN y = False"
| "number_le x NaN = False"
| "number_le NegInf y = True"
| "number_le x PosInf = True"
| "number_le (Fin a) (Fin b) = (a \<le> b)"
| "number_le x y = False"

text \<open>\<^verbatim>\<open>Math.min(a, b)\<close> on numbers.\<close>

fun Math_min_number :: "number \<Rightarrow> number \<Rightarrow> number" where
  "Math_min_number NaN y = NaN"
| "Math_min_number x NaN = NaN"
| "Math_min_number x y = (if number_le x y then x else y)"

text \<open>
  Rounding a rational to the nearest double, ties to even (IEEE 754 binary64): 53
  significant bits, exponents from -1022 (subnormal numbers below) to 1023, an infinity
  from \<open>2 ^ 1024\<close> on. \<open>bit_length n\<close> is the number of binary digits of \<open>n\<close>, and
  \<open>binade a\<close>, for \<open>a > 0\<close>, is the exponent \<open>e\<close> with \<open>2 ^ e \<le> a < 2 ^ (e + 1)\<close>.
\<close>

function bit_length :: "int \<Rightarrow> nat" where
  "bit_length n = (if n \<le> 0 then 0 else Suc (bit_length (n div 2)))"
  by pat_completeness auto
termination
  by (relation "measure nat") auto

declare bit_length.simps [simp del]

definition binade :: "rat \<Rightarrow> int" where
  "binade a =
     (if 1 \<le> a then int (bit_length \<lfloor>a\<rfloor>) - 1
      else - int (bit_length (\<lceil>1 / a\<rceil> - 1)))"

definition round_half_even :: "rat \<Rightarrow> int" where
  "round_half_even q =
     (let f = \<lfloor>q\<rfloor>; r = q - of_int f
      in if r < 1 / 2 then f
         else if 1 / 2 < r then f + 1
         else if even f then f else f + 1)"

text \<open>The rounding of a magnitude \<open>a \<ge> 0\<close>, before the overflow to an infinity.\<close>

definition round_magnitude :: "rat \<Rightarrow> rat" where
  "round_magnitude a =
     (if a = 0 then 0
      else let e = max (binade a) (- 1022);
               u = 2 powi (e - 52)
           in of_int (round_half_even (a / u)) * u)"

definition double_round :: "rat \<Rightarrow> number" where
  "double_round x =
     (let y = round_magnitude \<bar>x\<bar>
      in if 2 ^ 1024 \<le> y then (if 0 < x then PosInf else NegInf)
         else Fin (if 0 \<le> x then y else - y))"

text \<open>\<^verbatim>\<open>a + b\<close> on numbers: the exact sum of two doubles, rounded to a double.\<close>

fun js_plus :: "number \<Rightarrow> number \<Rightarrow> number" where
  "js_plus NaN y = NaN"
| "js_plus x NaN = NaN"
| "js_plus PosInf NegInf = NaN"
| "js_plus NegInf PosInf = NaN"
| "js_plus PosInf y = PosInf"
| "js_plus x PosInf = PosInf"
| "js_plus NegInf y = NegInf"
| "js_plus x NegInf = NegInf"
| "js_plus (Fin a) (Fin b) = double_round (a + b)"

text \<open>
  \<^verbatim>\<open>date.getTime()\<close>, and \<^verbatim>\<open>new Date(number)\<close>, which clips the number to a time value: an
  invalid date for \<^verbatim>\<open>NaN\<close>, an infinity or a magnitude above 8.64e15, and otherwise the
  number with its fraction cut off (rounded towards zero).
\<close>

fun getTime :: "date \<Rightarrow> number" where
  "getTime (Some t) = Fin (of_int t)"
| "getTime None = NaN"

definition MAX_TIME :: int where
  "MAX_TIME = 8640000000000000"

fun new_Date :: "number \<Rightarrow> date" where
  "new_Date (Fin x) =
     (if \<bar>x\<bar> \<le> of_int MAX_TIME then Some (if 0 \<le> x then \<lfloor>x\<rfloor> else \<lceil>x\<rceil>) else None)"
| "new_Date NaN = None"
| "new_Date NegInf = None"
| "new_Date PosInf = None"

text \<open>The values of type \<open>date\<close> that a \<^verbatim>\<open>Date\<close> object can hold.\<close>

fun is_Date :: "date \<Rightarrow> bool" where
  "is_Date None = True"
| "is_Date (Some t) = (\<bar>t\<bar> \<le> MAX_TIME)"

section \<open>Strings\<close>

text \<open>The decimal digits of a number, as a template literal prints an integer.\<close>

fun digits :: "nat \<Rightarrow> string" where
  "digits n =
     (if n < 10 then [''0123456789'' ! n]
      else digits (n div 10) @ [''0123456789'' ! (n mod 10)])"

definition toString :: "int \<Rightarrow> string" where
  "toString n = (if n < 0 then ''-'' @ digits (nat (- n)) else digits (nat n))"

text \<open>\<^verbatim>\<open>parts.join(sep)\<close>.\<close>

fun join :: "string \<Rightarrow> string list \<Rightarrow> string" where
  "join sep [] = []"
| "join sep [x] = x"
| "join sep (x # y # ys) = x @ sep @ join sep (y # ys)"

section \<open>Window scoring and computation\<close>

fun IMPACT_WEIGHTS :: "ImpactLevel \<Rightarrow> rat" where
  "IMPACT_WEIGHTS low = 10"
| "IMPACT_WEIGHTS medium = 30"
| "IMPACT_WEIGHTS high = 50"

fun CONFIDENCE_MULTIPLIERS :: "ConfidenceLevel \<Rightarrow> rat" where
  "CONFIDENCE_MULTIPLIERS low = 1 / 2"
| "CONFIDENCE_MULTIPLIERS medium = 3 / 4"
| "CONFIDENCE_MULTIPLIERS high = 1"

definition STATUS_THRESHOLDS_safer :: rat where
  "STATUS_THRESHOLDS_safer = 20"

definition STATUS_THRESHOLDS_caution :: rat where
  "STATUS_THRESHOLDS_caution = 50"

definition DEFAULT_WINDOW_DURATION_MS :: number where
  "DEFAULT_WINDOW_DURATION_MS = Fin (2 * 60 * 60 * 1000)"

definition computeSignalScore :: "Signal \<Rightarrow> rat" where
  "computeSignalScore signal =
     (let baseScore = IMPACT_WEIGHTS (impactLevel signal);
          multiplier = CONFIDENCE_MULTIPLIERS (confidenceLevel signal)
      in baseScore * multiplier)"

definition findOverlaps :: "Signal list \<Rightarrow> date \<Rightarrow> date \<Rightarrow> Signal list" where
  "findOverlaps signals windowStart windowEnd =
     filter (\<lambda>signal.
        let signalStart = range_start (timeRange signal);
            signalEnd = range_end (timeRange signal)
        in date_lt signalStart windowEnd \<and> date_lt windowStart signalEnd) signals"

definition generateAnnotation :: "Signal list \<Rightarrow> WindowStatus \<Rightarrow> string" where
  "generateAnnotation overlappingSignals st =
     (if length overlappingSignals = 0
      then ''No known disruptions during this window. Good opportunity for outreach.''
      else
        let highImpact = filter (\<lambda>s. impactLevel s = high) overlappingSignals;
            mediumImpact = filter (\<lambda>s. impactLevel s = medium) overlappingSignals;
            parts0 = [];
            parts1 = (if length highImpact > 0
                      then parts0 @ [toString (int (length highImpact))
                                     @ '' high-impact signal(s): ''
                                     @ join '', '' (map title highImpact)]
                      else parts0);
            parts2 = (if length mediumImpact > 0
                      then parts1 @ [toString (int (length mediumImpact))
                                     @ '' medium-impact signal(s)'']
                      else parts1);
            lowImpactCount = int (length overlappingSignals) - int (length highImpact)
                             - int (length mediumImpact);
            parts = (if lowImpactCount > 0
                     then parts2 @ [toString lowImpactCount @ '' low-impact signal(s)'']
                     else parts2)
        in (case st of
              safer \<Rightarrow> ''Minor activity: '' @ join ''; '' parts
                         @ ''. Generally safe for outreach with awareness.''
            | caution \<Rightarrow> ''Moderate disruption: '' @ join ''; '' parts
                         @ ''. Proceed with flexibility and backup plans.''
            | avoid \<Rightarrow> ''High disruption: '' @ join ''; '' parts
                         @ ''. Consider rescheduling if possible.''))"

definition getStatusFromScore :: "rat \<Rightarrow> WindowStatus" where
  "getStatusFromScore sc =
     (if sc \<le> STATUS_THRESHOLDS_safer then safer
      else if sc \<le> STATUS_THRESHOLDS_caution then caution
      else avoid)"

text \<open>
  The body of the loop of \<^verbatim>\<open>computeWindows\<close> after \<^verbatim>\<open>currentEnd\<close> is known: the window
  pushed for \<^verbatim>\<open>currentStart\<close>, \<^verbatim>\<open>currentEnd\<close> and \<^verbatim>\<open>windowIndex\<close>. The \<^verbatim>\<open>reduce\<close> is a
  left fold from 0.
\<close>

definition computeWindows_window ::
    "Signal list \<Rightarrow> date \<Rightarrow> date \<Rightarrow> nat \<Rightarrow> OutreachWindow" where
  "computeWindows_window signals currentStart currentEnd windowIndex =
     (let overlapping = findOverlaps signals currentStart currentEnd;
          rawScore = foldl (\<lambda>sum signal. sum + computeSignalScore signal) 0 overlapping;
          sc = min 100 rawScore;
          st = getStatusFromScore sc
      in \<lparr> wid = ''window-'' @ toString (int windowIndex),
           w_timeRange = \<lparr> range_start = currentStart, range_end = currentEnd \<rparr>,
           status = st,
           score = sc,
           annotation = generateAnnotation overlapping st,
           contributingSignals = overlapping \<rparr>)"

text \<open>
  The \<^verbatim>\<open>currentEnd\<close> of an iteration:
  \<^verbatim>\<open>new Date(Math.min(currentStart.getTime() + windowDurationMs, rangeEnd.getTime()))\<close>.
\<close>

definition computeWindows_currentEnd :: "date \<Rightarrow> number \<Rightarrow> date \<Rightarrow> date" where
  "computeWindows_currentEnd currentStart windowDurationMs rangeEnd =
     new_Date (Math_min_number (js_plus (getTime currentStart) windowDurationMs)
                 (getTime rangeEnd))"

text \<open>
  The \<^verbatim>\<open>while\<close> loop of \<^verbatim>\<open>computeWindows\<close>. The window duration is any number. The loop
  need not end (a duration of 0 never advances \<^verbatim>\<open>currentStart\<close>), and
  \<^verbatim>\<open>currentEnd.toISOString()\<close> throws a \<^verbatim>\<open>RangeError\<close> when \<^verbatim>\<open>currentEnd\<close> is an invalid
  date. So the loop is a partial function, and \<open>None\<close> is a call that returns no list:
  it does not end, or it throws.
\<close>

partial_function (option) computeWindows_loop ::
    "Signal list \<Rightarrow> date \<Rightarrow> number \<Rightarrow> date \<Rightarrow> nat \<Rightarrow> OutreachWindow list
       \<Rightarrow> OutreachWindow list option" where
  "computeWindows_loop signals rangeEnd windowDurationMs currentStart windowIndex windows =
     (if date_lt currentStart rangeEnd
      then
        (if computeWindows_currentEnd currentStart windowDurationMs rangeEnd = None
         then None
         else computeWindows_loop signals rangeEnd windowDurationMs
                (computeWindows_currentEnd currentStart windowDurationMs rangeEnd)
                (windowIndex + 1)
                (windows @ [computeWindows_window signals currentStart
                              (computeWindows_currentEnd currentStart windowDurationMs rangeEnd)
                              windowIndex]))
      else Some windows)"

text \<open>
  \<^verbatim>\<open>computeWindows(signals, rangeStart, rangeEnd, windowDurationMs)\<close>; a call without the
  fourth argument passes \<open>DEFAULT_WINDOW_DURATION_MS\<close>.
\<close>

declare computeWindows_loop.simps [code]

definition computeWindows ::
    "Signal list \<Rightarrow> date \<Rightarrow> date \<Rightarrow> number \<Rightarrow> OutreachWindow list option" where
  "computeWindows signals rangeStart rangeEnd windowDurationMs =
     computeWindows_loop signals rangeEnd windowDurationMs rangeStart 0 []"

section \<open>Overlap detection\<close>

text \<open>
  \<^verbatim>\<open>typeDescriptions\<close> has an entry, a non-empty string, for every signal type, so the
  fallback \<^verbatim>\<open>|| signalA.signalType\<close> is never taken.
\<close>

fun typeDescriptions :: "SignalType \<Rightarrow> string" where
  "typeDescriptions sanitation = ''sanitation activity''"
| "typeDescriptions publicEvent = ''public event''"
| "typeDescriptions shelterHours = ''shelter service hours''"
| "typeDescriptions transitDisruption = ''transit disruption''"
| "typeDescriptions serviceBottleneck = ''service bottleneck''"
| "typeDescriptions infrastructureWork = ''infrastructure work''"
| "typeDescriptions megaEvent = ''major event''"
| "typeDescriptions custom = ''planned activity''"

definition generateOverlapExplanation :: "Signal \<Rightarrow> Signal \<Rightarrow> string" where
  "generateOverlapExplanation signalA signalB =
     (let descA = typeDescriptions (signalType signalA);
          descB = typeDescriptions (signalType signalB)
      in title signalA @ '' ('' @ descA @ '') overlaps with '' @ title signalB
         @ '' ('' @ descB @ ''). ''
         @ ''Multiple disruptions increase unpredictability. Consider alternative windows or enhanced coordination.'')"

text \<open>
  The object pushed by \<^verbatim>\<open>detectSignalOverlaps\<close> for a pair that overlaps: the overlap
  period, the combined impact, the identifier and the explanation.
\<close>

definition detectSignalOverlaps_overlap :: "Signal \<Rightarrow> Signal \<Rightarrow> SignalOverlap" where
  "detectSignalOverlaps_overlap signalA signalB =
     (let startA = range_start (timeRange signalA);
          endA = range_end (timeRange signalA);
          startB = range_start (timeRange signalB);
          endB = range_end (timeRange signalB);
          overlapStart = Math_max startA startB;
          overlapEnd = Math_min endA endB;
          combined = (if impactLevel signalA = high \<or> impactLevel signalB = high
                      then high else medium)
      in \<lparr> oid = ''overlap-'' @ sid signalA @ ''-'' @ sid signalB,
           o_signals = [signalA, signalB],
           o_timeRange = \<lparr> range_start = overlapStart, range_end = overlapEnd \<rparr>,
           combinedImpact = combined,
           explanation = generateOverlapExplanation signalA signalB \<rparr>)"

text \<open>The inner loop over \<^verbatim>\<open>j\<close>, from \<^verbatim>\<open>i + 1\<close> to the end of the list.\<close>

function detectSignalOverlaps_inner ::
    "Signal list \<Rightarrow> nat \<Rightarrow> nat \<Rightarrow> SignalOverlap list \<Rightarrow> SignalOverlap list" where
  "detectSignalOverlaps_inner significantSignals i j overlaps =
     (if j < length significantSignals
      then
        (let signalA = significantSignals ! i;
             signalB = significantSignals ! j;
             startA = range_start (timeRange signalA);
             endA = range_end (timeRange signalA);
             startB = range_start (timeRange signalB);
             endB = range_end (timeRange signalB)
         in if date_lt startA endB \<and> date_lt startB endA
            then detectSignalOverlaps_inner significantSignals i (j + 1)
                   (overlaps @ [detectSignalOverlaps_overlap signalA signalB])
            else detectSignalOverlaps_inner significantSignals i (j + 1) overlaps)
      else overlaps)"
  by pat_completeness auto
termination
  by (relation "measure (\<lambda>(ss, i, j, overlaps). length ss - j)") auto

text \<open>The outer loop over \<^verbatim>\<open>i\<close>.\<close>

function detectSignalOverlaps_outer ::
    "Signal list \<Rightarrow> nat \<Rightarrow> SignalOverlap list \<Rightarrow> SignalOverlap list" where
  "detectSignalOverlaps_outer significantSignals i overlaps =
     (if i < length significantSignals
      then detectSignalOverlaps_outer significantSignals (i + 1)
             (detectSignalOverlaps_inner significantSignals i (i + 1) overlaps)
      else overlaps)"
  by pat_completeness auto
termination
  by (relation "measure (\<lambda>(ss, i, overlaps). length ss - i)") auto

text \<open>The recursive equations of the two loops are unfolded by hand, not by the simplifier.\<close>

declare detectSignalOverlaps_inner.simps [simp del]
declare detectSignalOverlaps_outer.simps [simp del]

definition detectSignalOverlaps :: "Signal list \<Rightarrow> SignalOverlap list" where
  "detectSignalOverlaps signals =
     (let significantSignals =
            filter (\<lambda>s. impactLevel s = medium \<or> impactLevel s = high) signals
      in detectSignalOverlaps_outer significantSignals 0 [])"

section \<open>Mock signal data\<close>

text \<open>
  The time ranges of the mock signals are built from \<^verbatim>\<open>today\<close> with the local-calendar
  arithmetic of \<^verbatim>\<open>Date\<close> (\<^verbatim>\<open>setDate\<close> in \<^verbatim>\<open>addDays\<close>, \<^verbatim>\<open>setHours\<close> in \<^verbatim>\<open>setTime\<close>).
  That arithmetic is a parameter: \<open>cal d h m\<close> stands for
  \<^verbatim>\<open>setTime(addDays(today, d), h, m)\<close>, and \<^verbatim>\<open>setTime(today, h)\<close> is \<open>cal 0 h 0\<close>.
\<close>

type_synonym calendar = "int \<Rightarrow> int \<Rightarrow> int \<Rightarrow> date"

definition sanitationSignals :: "calendar \<Rightarrow> Signal list" where
  "sanitationSignals cal =
    [
     \<lparr> sid = ''sanitation-1'', signalType = sanitation,
        title = ''Street Cleaning - Wilshire Corridor'',
        timeRange = \<lparr> range_start = cal 0 8 0, range_end = cal 0 12 0 \<rparr>,
        impactLevel = medium, confidenceLevel = medium \<rparr>,
     \<lparr> sid = ''sanitation-2'', signalType = sanitation,
        title = ''Street Cleaning - 6th Street Area'',
        timeRange = \<lparr> range_start = cal 1 9 0, range_end = cal 1 13 0 \<rparr>,
        impactLevel = medium, confidenceLevel = low \<rparr>,
     \<lparr> sid = ''sanitation-3'', signalType = sanitation,
        title = ''Street Cleaning - Vermont Ave'',
        timeRange = \<lparr> range_start = cal 2 7 0, range_end = cal 2 11 0 \<rparr>,
        impactLevel = high, confidenceLevel = medium \<rparr>,
     \<lparr> sid = ''sanitation-4'', signalType = sanitation,
        title = ''Street Cleaning - Olympic Blvd'',
        timeRange = \<lparr> range_start = cal 3 6 0, range_end = cal 3 10 0 \<rparr>,
        impactLevel = medium, confidenceLevel = high \<rparr>
    ]"

definition publicEventSignals :: "calendar \<Rightarrow> Signal list" where
  "publicEventSignals cal =
    [
     \<lparr> sid = ''event-1'', signalType = publicEvent,
        title = ''K-Town Night Market'',
        timeRange = \<lparr> range_start = cal 2 17 0, range_end = cal 2 22 0 \<rparr>,
        impactLevel = medium, confidenceLevel = high \<rparr>,
     \<lparr> sid = ''event-2'', signalType = publicEvent,
        title = ''Wilshire Center Farmers Market'',
        timeRange = \<lparr> range_start = cal 3 9 0, range_end = cal 3 14 0 \<rparr>,
        impactLevel = low, confidenceLevel = high \<rparr>,
     \<lparr> sid = ''event-3'', signalType = publicEvent,
        title = ''Community Health Fair'',
        timeRange = \<lparr> range_start = cal 4 10 0, range_end = cal 4 16 0 \<rparr>,
        impactLevel = low, confidenceLevel = high \<rparr>,
     \<lparr> sid = ''event-4'', signalType = publicEvent,
        title = ''LACMA Free Admission Day'',
        timeRange = \<lparr> range_start = cal 5 11 0, range_end = cal 5 20 0 \<rparr>,
        impactLevel = low, confidenceLevel = high \<rparr>
    ]"

definition shelterSignals :: "calendar \<Rightarrow> Signal list" where
  "shelterSignals cal =
    [
     \<lparr> sid = ''shelter-1'', signalType = shelterHours,
        title = ''Emergency Shelter Intake Opens'',
        timeRange = \<lparr> range_start = cal 0 17 0, range_end = cal 0 20 0 \<rparr>,
        impactLevel = low, confidenceLevel = high \<rparr>,
     \<lparr> sid = ''shelter-2'', signalType = shelterHours,
        title = ''Day Center Services - Union Rescue Mission'',
        timeRange = \<lparr> range_start = cal 0 8 0, range_end = cal 0 14 0 \<rparr>,
        impactLevel = low, confidenceLevel = high \<rparr>,
     \<lparr> sid = ''shelter-3'', signalType = shelterHours,
        title = ''Mobile Shower Unit - Vermont/Wilshire'',
        timeRange = \<lparr> range_start = cal 1 10 0, range_end = cal 1 15 0 \<rparr>,
        impactLevel = low, confidenceLevel = high \<rparr>,
     \<lparr> sid = ''shelter-4'', signalType = shelterHours,
        title = ''Hot Meal Service - St. Basil's'',
        timeRange = \<lparr> range_start = cal 0 11 0, range_end = cal 0 13 0 \<rparr>,
        impactLevel = low, confidenceLevel = high \<rparr>
    ]"

definition transitSignals :: "calendar \<Rightarrow> Signal list" where
  "transitSignals cal =
    [
     \<lparr> sid = ''transit-1'', signalType = transitDisruption,
        title = ''Metro Purple Line Construction'',
        timeRange = \<lparr> range_start = cal 0 0 0, range_end = cal 7 23 59 \<rparr>,
        impactLevel = medium, confidenceLevel = high \<rparr>,
     \<lparr> sid = ''transit-2'', signalType = transitDisruption,
        title = ''Bus Reroute - Vermont Line'',
        timeRange = \<lparr> range_start = cal 2 6 0, range_end = cal 2 18 0 \<rparr>,
        impactLevel = low, confidenceLevel = medium \<rparr>
    ]"

definition serviceBottleneckSignals :: "calendar \<Rightarrow> Signal list" where
  "serviceBottleneckSignals cal =
    [
     \<lparr> sid = ''bottleneck-1'', signalType = serviceBottleneck,
        title = ''Benefits Office High Volume'',
        timeRange = \<lparr> range_start = cal 0 8 0, range_end = cal 3 17 0 \<rparr>,
        impactLevel = medium, confidenceLevel = medium \<rparr>
    ]"

definition infrastructureSignals :: "calendar \<Rightarrow> Signal list" where
  "infrastructureSignals cal =
    [
     \<lparr> sid = ''infra-1'', signalType = infrastructureWork,
        title = ''Water Main Repair'',
        timeRange = \<lparr> range_start = cal 1 7 0, range_end = cal 1 19 0 \<rparr>,
        impactLevel = medium, confidenceLevel = low \<rparr>
    ]"

definition megaEventSignals :: "calendar \<Rightarrow> Signal list" where
  "megaEventSignals cal =
    [
     \<lparr> sid = ''mega-1'', signalType = megaEvent,
        title = ''[SCENARIO] Olympics Opening Week'',
        timeRange = \<lparr> range_start = cal 14 0 0, range_end = cal 21 23 59 \<rparr>,
        impactLevel = high, confidenceLevel = low \<rparr>,
     \<lparr> sid = ''mega-2'', signalType = megaEvent,
        title = ''[SCENARIO] Transit Surge Period'',
        timeRange = \<lparr> range_start = cal 15 6 0, range_end = cal 15 22 0 \<rparr>,
        impactLevel = high, confidenceLevel = low \<rparr>,
     \<lparr> sid = ''mega-3'', signalType = megaEvent,
        title = ''[SCENARIO] Venue Buffer Zones'',
        timeRange = \<lparr> range_start = cal 14 0 0, range_end = cal 28 23 59 \<rparr>,
        impactLevel = high, confidenceLevel = low \<rparr>
    ]"

definition getBaseSignals :: "calendar \<Rightarrow> Signal list" where
  "getBaseSignals cal =
     sanitationSignals cal @ publicEventSignals cal @ shelterSignals cal
     @ transitSignals cal @ serviceBottleneckSignals cal @ infrastructureSignals cal"

text \<open>\<^verbatim>\<open>getAllSignals(includeScenario)\<close>; a call without the argument passes \<open>False\<close>.\<close>

definition getAllSignals :: "calendar \<Rightarrow> bool \<Rightarrow> Signal list" where
  "getAllSignals cal includeScenario =
     (let base = getBaseSignals cal
      in if includeScenario then base @ megaEventSignals cal else base)"

definition filterSignalsByDateRange :: "Signal list \<Rightarrow> date \<Rightarrow> date \<Rightarrow> Signal list" where
  "filterSignalsByDateRange signals start_d end_d =
     filter (\<lambda>signal.
        let signalStart = range_start (timeRange signal);
            signalEnd = range_end (timeRange signal)
        in date_le signalStart end_d \<and> date_le start_d signalEnd) signals"

section \<open>The signals API route\<close>

text \<open>
  What the handler takes from outside: the calendar of the mock data, the date parser
  (\<open>env_parse\<close> gives the number that parsing a string gives, \<^verbatim>\<open>NaN\<close> when it does not
  parse, and \<^verbatim>\<open>new Date(string)\<close> is \<open>new_Date\<close> of it), and the two readings of the
  clock (\<^verbatim>\<open>new Date()\<close> at the start of the handler and for \<^verbatim>\<open>generatedAt\<close>), which are
  valid dates.
\<close>

record env =
  env_cal :: calendar
  env_parse :: "string \<Rightarrow> number"
  env_now :: int
  env_generatedAt :: int

text \<open>The query parameters: \<^verbatim>\<open>searchParams.get\<close> gives a string or \<^verbatim>\<open>null\<close>.\<close>

record request =
  startParam :: "string option"
  endParam :: "string option"
  scenarioParam :: "string option"

record meta =
  queryRange :: timeRange
  scenarioMode :: bool
  generatedAt :: date
  disclaimer :: string

record SignalsApiResponse =
  r_signals :: "Signal list"
  r_overlaps :: "SignalOverlap list"
  r_windows :: "OutreachWindow list"
  r_meta :: meta

datatype body = ErrorBody string | ApiBody SignalsApiResponse

record NextResponse =
  http_status :: nat
  json :: body

text \<open>A parameter is truthy when it is a non-empty string.\<close>

fun truthy :: "string option \<Rightarrow> bool" where
  "truthy None = False"
| "truthy (Some s) = (s \<noteq> [])"

text \<open>The \<^verbatim>\<open>start\<close> and \<^verbatim>\<open>end\<close> of the handler.\<close>

definition GET_start :: "env \<Rightarrow> request \<Rightarrow> date" where
  "GET_start e request =
     (if truthy (startParam request) then new_Date (env_parse e (the (startParam request)))
      else Some (env_now e))"

definition GET_end :: "env \<Rightarrow> request \<Rightarrow> date" where
  "GET_end e request =
     (if truthy (endParam request) then new_Date (env_parse e (the (endParam request)))
      else new_Date (js_plus (getTime (GET_start e request)) (Fin (7 * 24 * 60 * 60 * 1000))))"

text \<open>
  The handler. \<^verbatim>\<open>NextResponse.json(body)\<close> without a status is a response of status 200.
  \<open>None\<close> is a run in which \<^verbatim>\<open>computeWindows\<close> does not return.
\<close>

definition GET :: "env \<Rightarrow> request \<Rightarrow> NextResponse option" where
  "GET e request =
     (let start_d = GET_start e request;
          end_d = GET_end e request;
          includeScenario = (scenarioParam request = Some ''on'')
      in if start_d = None \<or> end_d = None
         then Some \<lparr> http_status = 400,
                     json = ErrorBody ''Invalid date format. Use ISO 8601 format.'' \<rparr>
         else if date_le end_d start_d
         then Some \<lparr> http_status = 400,
                     json = ErrorBody ''End date must be after start date.'' \<rparr>
         else
           (let allSignals = getAllSignals (env_cal e) includeScenario;
                filteredSignals = filterSignalsByDateRange allSignals start_d end_d
            in case computeWindows filteredSignals start_d end_d DEFAULT_WINDOW_DURATION_MS of
                 None \<Rightarrow> None
               | Some wins \<Rightarrow>
                   Some \<lparr> http_status = 200,
                          json = ApiBody
                            \<lparr> r_signals = filteredSignals,
                              r_overlaps = detectSignalOverlaps filteredSignals,
                              r_windows = wins,
                              r_meta =
                                \<lparr> queryRange = \<lparr> range_start = start_d, range_end = end_d \<rparr>,
                                  scenarioMode = includeScenario,
                                  generatedAt = Some (env_generatedAt e),
                                  disclaimer = ''PROTOTYPE DATA: All signals are simulated or based on delayed/public information. This tool does not provide real-time data, enforcement information, or individual tracking. Use for organizational planning purposes only. Verify conditions before outreach activities.'' \<rparr> \<rparr> \<rparr>))"

section \<open>Sample inputs\<close>

text \<open>
  Three small signals, with time values of a few milliseconds, on which the theorems
  below are instantiated: a high-impact one from 0 to 2, a medium-impact one from 1 to 3
  and a low-impact one from 0 to 3.
\<close>

definition sample_A :: Signal where
  "sample_A = \<lparr> sid = ''a'', signalType = sanitation, title = ''Cleaning'',
      timeRange = \<lparr> range_start = Some 0, range_end = Some 2 \<rparr>,
      impactLevel = high, confidenceLevel = high \<rparr>"

definition sample_B :: Signal where
  "sample_B = \<lparr> sid = ''b'', signalType = publicEvent, title = ''Market'',
      timeRange = \<lparr> range_start = Some 1, range_end = Some 3 \<rparr>,
      impactLevel = medium, confidenceLevel = medium \<rparr>"

definition sample_C :: Signal where
  "sample_C = \<lparr> sid = ''c'', signalType = shelterHours, title = ''Meal'',
      timeRange = \<lparr> range_start = Some 0, range_end = Some 3 \<rparr>,
      impactLevel = low, confidenceLevel = high \<rparr>"

definition sample_signals :: "Signal list" where
  "sample_signals = [sample_A, sample_B]"

text \<open>The windows of the range from 0 to 5 for a duration of 2.\<close>

definition sample_w0 :: OutreachWindow where
  "sample_w0 = computeWindows_window sample_signals (Some 0) (Some 2) 0"

definition sample_w1 :: OutreachWindow where
  "sample_w1 = computeWindows_window sample_signals (Some 2) (Some 4) 1"

definition sample_w2 :: OutreachWindow where
  "sample_w2 = computeWindows_window sample_signals (Some 4) (Some 5) 2"

text \<open>A calendar with days of 24 hours that start at multiples of 86400000.\<close>

definition sample_cal :: calendar where
  "sample_cal d h m = Some (d * 86400000 + h * 3600000 + m * 60000)"

text \<open>
  A parser that knows three ISO strings (the third is the last time value a date can
  hold), an environment with it, and four requests: one with a start that does not parse,
  one with the end before the start, one valid, and one with the last valid date as start
  and no end.
\<close>

definition sample_parse :: "string \<Rightarrow> number" where
  "sample_parse s =
     (if s = ''1970-01-01T00:00:00.000Z'' then Fin 0
      else if s = ''1970-01-01T04:00:00.000Z'' then Fin 14400000
      else if s = ''+275760-09-13T00:00:00.000Z'' then Fin 8640000000000000
      else NaN)"

definition sample_env :: env where
  "sample_env = \<lparr> env_cal = sample_cal, env_parse = sample_parse,
                   env_now = 3600000, env_generatedAt = 3600001 \<rparr>"

definition sample_request_invalid :: request where
  "sample_request_invalid =
     \<lparr> startParam = Some ''yesterday'', endParam = None, scenarioParam = None \<rparr>"

definition sample_request_reversed :: request where
  "sample_request_reversed =
     \<lparr> startParam = Some ''1970-01-01T04:00:00.000Z'',
       endParam = Some ''1970-01-01T00:00:00.000Z'', scenarioParam = Some ''on'' \<rparr>"

definition sample_request_valid :: request where
  "sample_request_valid =
     \<lparr> startParam = Some ''1970-01-01T00:00:00.000Z'',
       endParam = Some ''1970-01-01T04:00:00.000Z'', scenarioParam = Some ''off'' \<rparr>"

definition sample_request_limit :: request where
  "sample_request_limit =
     \<lparr> startParam = Some ''+275760-09-13T00:00:00.000Z'', endParam = None,
       scenarioParam = None \<rparr>"


section \<open>Facts about double rounding\<close>

text \<open>
  The exponent is the right one, and rounding never crosses a number with at most 53
  significant bits: such a number at or below \<open>x\<close> is at or below the rounded \<open>x\<close>, and
  likewise above. So these numbers, the whole numbers below \<open>2 ^ 53\<close> among them, are
  rounded to themselves.
\<close>


lemma bit_length_pos: "0 < n \<Longrightarrow> 0 < bit_length n"
  by (subst bit_length.simps) simp

lemma bit_length_bounds:
  "0 < n \<Longrightarrow> 2 ^ (bit_length n - 1) \<le> n \<and> n < 2 ^ bit_length n"
proof (induction n rule: bit_length.induct)
  case (1 n)
  show ?case
  proof (cases "n div 2 = 0")
    case True
    with 1(2) have "n = 1" by presburger
    then show ?thesis by (simp add: bit_length.simps)
  next
    case False
    with 1(2) have m: "0 < n div 2" by presburger
    from 1(2) have e: "bit_length n = Suc (bit_length (n div 2))"
      by (subst bit_length.simps) simp
    from 1(1)[OF _ m] 1(2)
    have lo: "2 ^ (bit_length (n div 2) - 1) \<le> n div 2" and hi: "n div 2 < 2 ^ bit_length (n div 2)"
      by simp_all
    from bit_length_pos[OF m] obtain b where b: "bit_length (n div 2) = Suc b"
      by (cases "bit_length (n div 2)") auto
    have "2 * (n div 2) \<le> n" "n \<le> 2 * (n div 2) + 1" by presburger+
    with lo hi show ?thesis by (simp add: e b)
  qed
qed

lemma binade_bounds:
  assumes a: "0 < a"
  shows "2 powi (binade a) \<le> a" and "a < 2 powi (binade a + 1)"
proof -
  show "2 powi (binade a) \<le> a"
  proof (cases "1 \<le> a")
    case True
    then have n: "0 < \<lfloor>a\<rfloor>" by simp
    from bit_length_pos[OF n] obtain b where b: "bit_length \<lfloor>a\<rfloor> = Suc b"
      by (cases "bit_length \<lfloor>a\<rfloor>") auto
    from bit_length_bounds[OF n] have "(2::int) ^ b \<le> \<lfloor>a\<rfloor>" by (simp add: b)
    then have "of_int ((2::int) ^ b) \<le> (of_int \<lfloor>a\<rfloor> :: rat)" by (simp only: of_int_le_iff)
    also have "\<dots> \<le> a" by simp
    finally show ?thesis using True by (simp add: binade_def b)
  next
    case False
    with a have "1 < 1 / a" by simp
    then have c: "0 < \<lceil>1 / a\<rceil> - 1" by (simp add: less_ceiling_iff)
    let ?m = "\<lceil>1 / a\<rceil> - 1"
    from bit_length_bounds[OF c] have "?m < 2 ^ bit_length ?m" by simp
    then have "\<lceil>1 / a\<rceil> \<le> 2 ^ bit_length ?m" by simp
    then have "1 / a \<le> 2 ^ bit_length ?m" by (simp add: ceiling_le_iff)
    then have "1 / 2 ^ bit_length ?m \<le> a"
      using a by (simp add: field_simps)
    then show ?thesis using False by (simp add: binade_def power_int_minus field_simps)
  qed
  show "a < 2 powi (binade a + 1)"
  proof (cases "1 \<le> a")
    case True
    then have n: "0 < \<lfloor>a\<rfloor>" by simp
    from bit_length_bounds[OF n] have "\<lfloor>a\<rfloor> < 2 ^ bit_length \<lfloor>a\<rfloor>" by simp
    then have "a < 2 ^ bit_length \<lfloor>a\<rfloor>" by (simp add: floor_less_iff)
    then show ?thesis using True by (simp add: binade_def)
  next
    case False
    with a have "1 < 1 / a" by simp
    then have c: "0 < \<lceil>1 / a\<rceil> - 1" by (simp add: less_ceiling_iff)
    let ?m = "\<lceil>1 / a\<rceil> - 1"
    from bit_length_pos[OF c] obtain b where b: "bit_length ?m = Suc b"
      by (cases "bit_length ?m") auto
    from bit_length_bounds[OF c] have "2 ^ b \<le> ?m" by (simp add: b)
    then have "of_int (2 ^ b) \<le> (of_int ?m :: rat)" by (simp only: of_int_le_iff)
    moreover have "of_int ?m < 1 / a" using ceiling_correct[of "1 / a"] by simp
    ultimately have "2 ^ b < 1 / a" by simp
    then have "a < 1 / 2 ^ b" using a by (simp add: field_simps)
    then show ?thesis using False by (simp add: binade_def b power_int_minus field_simps)
  qed
qed

lemma round_half_even_ge: "of_int m \<le> q \<Longrightarrow> m \<le> round_half_even q"
proof -
  assume "of_int m \<le> q"
  then have "m \<le> \<lfloor>q\<rfloor>" by (simp add: le_floor_iff)
  then show ?thesis by (simp add: round_half_even_def Let_def)
qed

lemma round_half_even_le: "q \<le> of_int m \<Longrightarrow> round_half_even q \<le> m"
proof (cases "q = of_int m")
  case True
  then show ?thesis by (simp add: round_half_even_def Let_def)
next
  case False
  assume "q \<le> of_int m"
  with False have "q < of_int m" by simp
  then have "\<lfloor>q\<rfloor> < m" by (simp add: floor_less_iff)
  then show ?thesis by (simp add: round_half_even_def Let_def)
qed


lemma grid_over_ulp:
  assumes "k \<le> - int j"
  shows "(of_int n / 2 ^ j) / (2 powi k) = (of_int (n * 2 ^ nat (- int j - k)) :: rat)"
proof -
  have "(2::rat) powi (- int j) = 2 powi k * 2 powi (- int j - k)"
    by (simp flip: power_int_add)
  moreover have "(2::rat) powi (- int j - k) = 2 ^ nat (- int j - k)"
    using assms by (simp add: power_int_nonneg_exp)
  moreover have "(of_int n / 2 ^ j :: rat) = of_int n * 2 powi (- int j)"
    by (simp add: power_int_minus field_simps)
  ultimately show ?thesis by simp
qed


lemma round_magnitude_ge:
  assumes a: "0 < a" and v: "v = of_int n / 2 ^ j" and n: "n < 2 ^ 53" and j: "j \<le> 1074"
    and le: "v \<le> a"
  shows "v \<le> round_magnitude a"
proof -
  define e where "e = max (binade a) (- 1022)"
  define k where "k = e - 52"
  define u :: rat where "u = 2 powi k"
  have u: "0 < u" by (simp add: u_def)
  have rm: "round_magnitude a = of_int (round_half_even (a / u)) * u"
    using a by (simp add: round_magnitude_def Let_def e_def k_def u_def)
  show ?thesis
  proof (cases "k \<le> - int j")
    case True
    let ?N = "n * 2 ^ nat (- int j - k)"
    have g: "v / u = of_int ?N" unfolding v u_def by (rule grid_over_ulp[OF True])
    from le u have "v / u \<le> a / u" by (simp add: divide_right_mono)
    then have "?N \<le> round_half_even (a / u)" unfolding g by (rule round_half_even_ge)
    then have "of_int ?N * u \<le> of_int (round_half_even (a / u)) * u"
      using u by (simp only: mult_le_cancel_right_pos of_int_le_iff)
    moreover have "of_int ?N * u = v" using g u by (simp add: field_simps)
    ultimately show ?thesis by (simp add: rm)
  next
    case False
    with j have e: "e = binade a" by (simp add: k_def e_def max_def split: if_splits)
    have "2 powi e \<le> a" unfolding e by (rule binade_bounds(1)[OF a])
    then have "2 powi e / u \<le> a / u" using u by (simp add: divide_right_mono)
    moreover have "(2::rat) powi e / u = of_int (2 ^ 52)"
      by (simp add: u_def k_def flip: power_int_diff)
    ultimately have "of_int (2 ^ 52) \<le> a / u" by simp
    then have "2 ^ 52 \<le> round_half_even (a / u)" by (rule round_half_even_ge)
    then have "of_int (2 ^ 52) * u \<le> of_int (round_half_even (a / u)) * u"
      using u by (simp only: mult_le_cancel_right_pos of_int_le_iff)
    moreover have "of_int (2 ^ 52) * u = 2 powi e"
    proof -
      have "(2::rat) powi (52 + k) = 2 powi 52 * 2 powi k"
        by (rule power_int_add) simp
      moreover have "52 + k = e" by (simp add: k_def)
      ultimately show ?thesis by (simp add: u_def)
    qed
    ultimately have lb: "2 powi e \<le> round_magnitude a" by (simp add: rm)
    have "v < 2 ^ 53 / 2 ^ j"
      unfolding v using n by (simp add: divide_strict_right_mono flip: of_int_less_iff)
    also have "\<dots> = 2 powi (53 - int j)" by (simp add: power_int_diff)
    also have "\<dots> \<le> 2 powi e"
      using False by (intro power_int_increasing) (simp_all add: k_def)
    finally show ?thesis using lb by simp
  qed
qed

lemma round_magnitude_le:
  assumes a: "0 < a" and v: "v = of_int n / 2 ^ j" and n: "n < 2 ^ 53" and j: "j \<le> 1074"
    and le: "a \<le> v"
  shows "round_magnitude a \<le> v"
proof -
  define e where "e = max (binade a) (- 1022)"
  define k where "k = e - 52"
  define u :: rat where "u = 2 powi k"
  have u: "0 < u" by (simp add: u_def)
  have rm: "round_magnitude a = of_int (round_half_even (a / u)) * u"
    using a by (simp add: round_magnitude_def Let_def e_def k_def u_def)
  have "2 powi (binade a) \<le> a" by (rule binade_bounds(1)[OF a])
  also note le
  also have "v < 2 ^ 53 / 2 ^ j"
    unfolding v using n by (simp add: divide_strict_right_mono flip: of_int_less_iff)
  also have "\<dots> = 2 powi (53 - int j)" by (simp add: power_int_diff)
  finally have lt: "(2::rat) powi (binade a) < 2 powi (53 - int j)" .
  have "binade a < 53 - int j"
  proof (rule ccontr)
    assume "\<not> binade a < 53 - int j"
    then have "53 - int j \<le> binade a" by simp
    then have "(2::rat) powi (53 - int j) \<le> 2 powi (binade a)"
      by (intro power_int_increasing) simp_all
    with lt show False by simp
  qed
  with j have k: "k \<le> - int j" by (simp add: k_def e_def)
  let ?N = "n * 2 ^ nat (- int j - k)"
  have g: "v / u = of_int ?N" unfolding v u_def by (rule grid_over_ulp[OF k])
  from le u have "a / u \<le> v / u" by (simp add: divide_right_mono)
  then have "round_half_even (a / u) \<le> ?N" unfolding g by (rule round_half_even_le)
  then have "of_int (round_half_even (a / u)) * u \<le> of_int ?N * u"
    using u by (simp only: mult_le_cancel_right_pos of_int_le_iff)
  moreover have "of_int ?N * u = v" using g u by (simp add: field_simps)
  ultimately show ?thesis by (simp add: rm)
qed

lemma number_le_antisym: "number_le (Fin v) y \<Longrightarrow> number_le y (Fin v) \<Longrightarrow> y = Fin v"
  by (cases y) simp_all

lemma double_round_not_NaN: "double_round x \<noteq> NaN"
  by (simp add: double_round_def Let_def)

lemma double_round_ge:
  assumes v: "v = of_int n / 2 ^ j" and n: "\<bar>n\<bar> < 2 ^ 53" and j: "j \<le> 1074" and le: "v \<le> x"
  shows "number_le (Fin v) (double_round x)"
proof (cases "0 \<le> x")
  case True
  show ?thesis
  proof (cases "x = 0")
    case True
    with le show ?thesis by (simp add: double_round_def round_magnitude_def)
  next
    case False
    with True have a: "0 < \<bar>x\<bar>" "\<bar>x\<bar> = x" and p: "0 < x" by simp_all
    from n have "n < 2 ^ 53" by simp
    from round_magnitude_ge[OF a(1) v this j] le a(2)
    have "v \<le> round_magnitude \<bar>x\<bar>" by simp
    then show ?thesis using p by (simp add: double_round_def Let_def)
  qed
next
  case False
  then have a: "0 < \<bar>x\<bar>" "\<bar>x\<bar> = - x" by simp_all
  have v': "- v = of_int (- n) / 2 ^ j" by (simp add: v)
  from n have "- n < 2 ^ 53" by simp
  from round_magnitude_le[OF a(1) v' this j] le a(2)
  have b: "round_magnitude \<bar>x\<bar> \<le> - v" by simp
  have "- v < 2 ^ 53"
  proof -
    have "\<bar>v\<bar> = \<bar>of_int n\<bar> / 2 ^ j" by (simp add: v)
    also have "\<dots> \<le> \<bar>of_int n\<bar> / 1"
      by (intro divide_left_mono) simp_all
    finally have "- v \<le> \<bar>of_int n\<bar>" by simp
    also have "\<dots> < 2 ^ 53" using n by (simp flip: of_int_abs)
    finally show ?thesis .
  qed
  with b have "round_magnitude \<bar>x\<bar> < 2 ^ 1024" by simp
  with b False show ?thesis by (simp add: double_round_def Let_def)
qed

lemma double_round_le:
  assumes v: "v = of_int n / 2 ^ j" and n: "\<bar>n\<bar> < 2 ^ 53" and j: "j \<le> 1074" and le: "x \<le> v"
  shows "number_le (double_round x) (Fin v)"
proof (cases "0 < x")
  case True
  then have a: "0 < \<bar>x\<bar>" "\<bar>x\<bar> = x" by simp_all
  from n have n': "n < 2 ^ 53" by simp
  from round_magnitude_le[OF a(1) v n' j] le a(2)
  have b: "round_magnitude \<bar>x\<bar> \<le> v" by simp
  have "\<bar>v\<bar> = \<bar>of_int n\<bar> / 2 ^ j" by (simp add: v)
  also have "\<dots> \<le> \<bar>of_int n\<bar> / 1"
    by (intro divide_left_mono) simp_all
  also have "\<dots> < 2 ^ 53" using n by (simp flip: of_int_abs)
  finally have "v < 2 ^ 53" by simp
  with b have "round_magnitude \<bar>x\<bar> < 2 ^ 1024" by simp
  with b True show ?thesis by (simp add: double_round_def Let_def)
next
  case False
  show ?thesis
  proof (cases "x = 0")
    case True
    with le show ?thesis by (simp add: double_round_def round_magnitude_def)
  next
    case nz: False
    with False have a: "0 < \<bar>x\<bar>" "\<bar>x\<bar> = - x" and neg: "x < 0" by simp_all
    have v': "- v = of_int (- n) / 2 ^ j" by (simp add: v)
    from n have "- n < 2 ^ 53" by simp
    from round_magnitude_ge[OF a(1) v' this j] le a(2)
    have "- v \<le> round_magnitude \<bar>x\<bar>" by simp
    then show ?thesis using neg by (simp add: double_round_def Let_def)
  qed
qed

lemma double_round_exact:
  assumes "v = of_int n / 2 ^ j" and "\<bar>n\<bar> < 2 ^ 53" and "j \<le> 1074"
  shows "double_round v = Fin v"
  using double_round_ge[OF assms order_refl] double_round_le[OF assms order_refl]
  by (rule number_le_antisym)

lemma double_round_int:
  "\<bar>n\<bar> < 2 ^ 53 \<Longrightarrow> double_round (of_int n) = Fin (of_int n)"
  using double_round_exact[of "of_int n" n 0] by simp

lemma double_round_ge_int:
  "\<bar>n\<bar> < 2 ^ 53 \<Longrightarrow> of_int n \<le> x \<Longrightarrow> number_le (Fin (of_int n)) (double_round x)"
  using double_round_ge[of "of_int n" n 0 x] by simp





lemma round_magnitude_zero [simp]: "round_magnitude 0 = 0"
  by (simp add: round_magnitude_def)



section \<open>Helper facts about the window loop\<close>

lemma foldl_score_sum:
  "foldl (\<lambda>sum signal. sum + f signal) a xs = a + sum_list (map f xs)"
  by (induction xs arbitrary: a) (simp_all add: add.assoc)

lemma date_lt_Some: "date_lt x y \<Longrightarrow> \<exists>a b. x = Some a \<and> y = Some b \<and> a < b"
  by (cases x; cases y) auto

text \<open>Cutting the fraction off keeps a number on its side of a whole number.\<close>

lemma trunc_ge: "of_int n \<le> y \<Longrightarrow> n \<le> (if 0 \<le> y then \<lfloor>y\<rfloor> else \<lceil>y\<rceil>)"
  for y :: rat
  by (simp add: le_floor_iff le_ceiling_iff)

lemma trunc_le: "y \<le> of_int n \<Longrightarrow> (if 0 \<le> y then \<lfloor>y\<rfloor> else \<lceil>y\<rceil>) \<le> n"
  for y :: rat
  by (simp add: floor_le_iff ceiling_le_iff)

lemma is_Date_new_Date: "is_Date (new_Date x)"
proof (cases x)
  case (Fin q)
  show ?thesis
  proof (cases "\<bar>q\<bar> \<le> of_int MAX_TIME")
    case True
    then have "of_int (- MAX_TIME) \<le> q" "q \<le> of_int MAX_TIME" by simp_all
    from trunc_ge[OF this(1)] trunc_le[OF this(2)] True show ?thesis
      by (simp add: Fin)
  next
    case False
    then show ?thesis by (simp add: Fin)
  qed
qed simp_all

lemma loop_stop:
  "\<not> date_lt cs re \<Longrightarrow> computeWindows_loop sigs re d cs i acc = Some acc"
  by (subst computeWindows_loop.simps) simp


lemma loop_step:
  "date_lt cs re \<Longrightarrow> computeWindows_currentEnd cs d re = Some c \<Longrightarrow>
     computeWindows_loop sigs re d cs i acc =
       computeWindows_loop sigs re d (Some c) (Suc i)
         (acc @ [computeWindows_window sigs cs (Some c) i])"
  by (subst computeWindows_loop.simps) simp

text \<open>The end of an iteration for a duration that is a whole number of milliseconds.\<close>

lemma currentEnd_whole:
  assumes lo: "- MAX_TIME \<le> cs" and lt: "cs < re" and hi: "re \<le> MAX_TIME" and k: "1 \<le> k"
  shows "computeWindows_currentEnd (Some cs) (Fin (of_int k)) (Some re) = Some (min (cs + k) re)"
proof -
  have M: "MAX_TIME < 2 ^ 53 - 1" by (simp add: MAX_TIME_def)
  have inr: "\<bar>of_int (min (cs + k) re) :: rat\<bar> \<le> of_int MAX_TIME"
    using lo lt hi k by (simp flip: of_int_abs del: of_int_abs)
  show ?thesis
  proof (cases "\<bar>cs + k\<bar> < 2 ^ 53")
    case True
    then have "double_round (of_int cs + of_int k) = Fin (of_int (cs + k))"
      using double_round_int[of "cs + k"] by simp
    then have "Math_min_number (js_plus (getTime (Some cs)) (Fin (of_int k))) (getTime (Some re))
        = Fin (of_int (min (cs + k) re))"
      by (simp add: min_def)
    then show ?thesis
      using inr by (simp add: computeWindows_currentEnd_def del: of_int_min)
  next
    case False
    with lo k M have big: "2 ^ 53 \<le> cs + k" by linarith
    have "\<bar>2 ^ 53 - 1 :: int\<bar> < 2 ^ 53" by simp
    moreover have "of_int (2 ^ 53 - 1) \<le> (of_int cs + of_int k :: rat)"
      using big by (simp flip: of_int_add del: of_int_add of_int_power)
    ultimately have g: "number_le (Fin (of_int (2 ^ 53 - 1))) (double_round (of_int cs + of_int k))"
      by (rule double_round_ge_int)
    have "of_int re < (of_int (2 ^ 53 - 1) :: rat)"
      using hi M by (simp only: of_int_less_iff; linarith?)
    with g have "Math_min_number (double_round (of_int cs + of_int k)) (Fin (of_int re))
        = Fin (of_int re)"
      by (cases "double_round (of_int cs + of_int k)") (auto simp del: of_int_diff of_int_power)
    moreover have "min (cs + k) re = re" using big hi M by simp
    ultimately show ?thesis
      using inr by (simp add: computeWindows_currentEnd_def del: of_int_min)
  qed
qed








text \<open>
  For a duration of at least 1 ms and dates within the range of \<open>Date\<close>, an iteration ends
  at a valid date after its start.
\<close>

lemma currentEnd_at_least_one:
  assumes lo: "- MAX_TIME \<le> cs" and lt: "cs < re" and hi: "re \<le> MAX_TIME"
    and d: "number_le (Fin 1) d"
  shows "\<exists>c. computeWindows_currentEnd (Some cs) d (Some re) = Some c \<and> cs < c"
proof -
  have M: "MAX_TIME < 2 ^ 53 - 1" by (simp add: MAX_TIME_def)
  have re_in: "\<bar>of_int re :: rat\<bar> \<le> of_int MAX_TIME"
    using lo lt hi by (simp flip: of_int_abs del: of_int_abs)
  show ?thesis
  proof (cases d)
    case NaN
    with d show ?thesis by simp
  next
    case NegInf
    with d show ?thesis by simp
  next
    case PosInf
    have "computeWindows_currentEnd (Some cs) d (Some re) = Some re"
      using re_in by (simp add: computeWindows_currentEnd_def PosInf)
    with lt show ?thesis by simp
  next
    case (Fin x)
    with d have x: "1 \<le> x" by simp
    let ?s = "of_int cs + x"
    let ?v = "double_round ?s"
    have ce: "computeWindows_currentEnd (Some cs) d (Some re)
                = new_Date (Math_min_number ?v (Fin (of_int re)))"
      by (simp add: computeWindows_currentEnd_def Fin)
    have "\<bar>cs + 1\<bar> < 2 ^ 53" using lo lt hi M by linarith
    moreover have "of_int (cs + 1) \<le> ?s" using x by simp
    ultimately have g: "number_le (Fin (of_int (cs + 1))) ?v" by (rule double_round_ge_int)
    show ?thesis
    proof (cases ?v)
      case NaN
      then show ?thesis by (simp add: double_round_not_NaN)
    next
      case NegInf
      with g show ?thesis by simp
    next
      case PosInf
      then have "computeWindows_currentEnd (Some cs) d (Some re) = Some re"
        using re_in by (simp add: ce)
      with lt show ?thesis by simp
    next
      case v: (Fin y)
      from g v have y: "of_int (cs + 1) \<le> y" by simp
      define m where "m = min y (of_int re)"
      have mn: "Math_min_number ?v (Fin (of_int re)) = Fin m"
        by (simp add: v m_def min_def)
      have m_lo: "of_int (cs + 1) \<le> m" using y lt by (simp add: m_def)
      have m_hi: "m \<le> of_int re" by (simp add: m_def)
      have m_in: "\<bar>m\<bar> \<le> of_int MAX_TIME"
      proof -
        have "(of_int (- MAX_TIME) :: rat) \<le> of_int (cs + 1)"
          using lo by (simp only: of_int_le_iff; linarith?)
        then have "of_int (- MAX_TIME) \<le> m" using m_lo by (rule order_trans)
        moreover have "(of_int re :: rat) \<le> of_int MAX_TIME"
          using hi by (simp only: of_int_le_iff)
        with m_hi have "m \<le> of_int MAX_TIME" by (rule order_trans)
        ultimately show ?thesis by simp
      qed
      define c where "c = (if 0 \<le> m then \<lfloor>m\<rfloor> else \<lceil>m\<rceil>)"
      have c: "computeWindows_currentEnd (Some cs) d (Some re) = Some c"
        using m_in by (simp add: ce mn c_def)
      have "cs + 1 \<le> c" unfolding c_def by (rule trunc_ge[OF m_lo])
      with c show ?thesis by simp
    qed
  qed
qed


lemma window_contributing [simp]:
  "contributingSignals (computeWindows_window sigs a b k) = findOverlaps sigs a b"
  by (simp add: computeWindows_window_def Let_def)

lemma window_timeRange [simp]:
  "w_timeRange (computeWindows_window sigs a b k) = \<lparr> range_start = a, range_end = b \<rparr>"
  by (simp add: computeWindows_window_def Let_def)

lemma ceil_div_shift:
  fixes x d :: int
  assumes "0 < d"
  shows "(x + d - 1) div d = (x - 1) div d + 1"
proof -
  have "x + d - 1 = (x - 1) + d" by simp
  then show ?thesis using assms by (simp only: div_add_self2) 
qed


text \<open>
  The loop in closed form, for a duration that is a whole number \<open>d\<close> of milliseconds, at
  least 1, and dates within the range of \<open>Date\<close>.
\<close>

lemma loop_closed:
  assumes d: "1 \<le> d" and hi: "re \<le> MAX_TIME"
  shows "- MAX_TIME \<le> cs \<Longrightarrow>
     computeWindows_loop sigs (Some re) (Fin (of_int d)) (Some cs) i acc =
     Some (acc @ map (\<lambda>k. computeWindows_window sigs (Some (cs + int k * d))
                           (Some (min (cs + (int k + 1) * d) re)) (i + k))
                 [0..<nat ((re - cs + d - 1) div d)])"
proof (induction "nat (re - cs)" arbitrary: cs i acc rule: less_induct)
  case less
  have d0: "0 < d" using d by simp
  show ?case
  proof (cases "cs < re")
    case False
    then have "re - cs - 1 < 0" by simp
    then have "(re - cs - 1) div d < 0" using d0 by (simp add: div_neg_pos_less0)
    then have "(re - cs + d - 1) div d \<le> 0"
      using d0 ceil_div_shift[of d "re - cs"] by simp
    with False show ?thesis by (simp add: loop_stop)
  next
    case True
    then have dl: "date_lt (Some cs) (Some re)" by simp
    note ce = currentEnd_whole[OF less(2) True hi d]
    note st = loop_step[OF dl ce]
    show ?thesis
    proof (cases "cs + d < re")
      case False
      with True have "0 \<le> re - cs - 1" "re - cs - 1 < d" by simp_all
      then have "(re - cs - 1) div d = 0" by (simp add: div_pos_pos_trivial)
      then have n1: "(re - cs + d - 1) div d = 1"
        using d0 ceil_div_shift[of d "re - cs"] by simp
      have m: "min (cs + d) re = re" using False by simp
      show ?thesis
        by (simp add: st loop_stop m n1)
    next
      case lt: True
      have n: "nat ((re - cs + d - 1) div d) = Suc (nat ((re - (cs + d) + d - 1) div d))"
      proof -
        have "re - (cs + d) + d - 1 = re - cs - 1" by simp
        then have "(re - cs + d - 1) div d = (re - (cs + d) + d - 1) div d + 1"
          using d0 ceil_div_shift[of d "re - cs"] by simp
        moreover have "0 \<le> (re - (cs + d) + d - 1) div d"
          using d0 lt by (simp add: pos_imp_zdiv_nonneg_iff)
        ultimately show ?thesis by simp
      qed
      have m: "min (cs + d) re = cs + d" using lt by simp
      have e: "\<And>k. cs + d + int k * d = cs + (1 + int k) * d"
              "\<And>k. cs + d + (int k + 1) * d = cs + (1 + int k + 1) * d"
        by (simp_all add: algebra_simps)
      have "nat (re - (cs + d)) < nat (re - cs)" using d0 lt by simp
      moreover have "- MAX_TIME \<le> cs + d" using less(2) d0 by simp
      ultimately have ih: "computeWindows_loop sigs (Some re) (Fin (of_int d)) (Some (cs + d)) (Suc i)
          (acc @ [computeWindows_window sigs (Some cs) (Some (cs + d)) i]) =
        Some ((acc @ [computeWindows_window sigs (Some cs) (Some (cs + d)) i])
              @ map (\<lambda>k. computeWindows_window sigs (Some (cs + d + int k * d))
                           (Some (min (cs + d + (int k + 1) * d) re)) (Suc i + k))
                 [0..<nat ((re - (cs + d) + d - 1) div d)])"
        by (rule less(1))
      show ?thesis
        unfolding st m ih
        by (simp add: n m upt_conv_Cons map_Suc_upt[symmetric] e del: upt_Suc)
    qed
  qed
qed

text \<open>
  For a duration of at least 1 ms and dates within the range of \<open>Date\<close> the loop returns.
\<close>

lemma loop_returns:
  assumes d: "number_le (Fin 1) d" and hi: "re \<le> MAX_TIME"
  shows "- MAX_TIME \<le> cs \<Longrightarrow> \<exists>ws. computeWindows_loop sigs (Some re) d (Some cs) i acc = Some ws"
proof (induction "nat (re - cs)" arbitrary: cs i acc rule: less_induct)
  case less
  show ?case
  proof (cases "cs < re")
    case False
    then show ?thesis by (simp add: loop_stop)
  next
    case True
    from currentEnd_at_least_one[OF less(2) True hi d] obtain c
      where ce: "computeWindows_currentEnd (Some cs) d (Some re) = Some c" and c: "cs < c"
      by blast
    from True have dl: "date_lt (Some cs) (Some re)" by simp
    have "nat (re - c) < nat (re - cs)" using c True by simp
    moreover have "- MAX_TIME \<le> c" using less(2) c by simp
    ultimately show ?thesis unfolding loop_step[OF dl ce] by (rule less(1))
  qed
qed



lemma computeWindows_empty_range:
  "\<not> date_lt rs re \<Longrightarrow> computeWindows sigs rs re d = Some []"
  by (simp add: computeWindows_def loop_stop)

lemma is_Date_Some: "is_Date (Some t) \<longleftrightarrow> - MAX_TIME \<le> t \<and> t \<le> MAX_TIME"
  by auto

lemma computeWindows_pos:
  assumes "1 \<le> d" and "- MAX_TIME \<le> rs" and "re \<le> MAX_TIME"
  shows "computeWindows sigs (Some rs) (Some re) (Fin (of_int d)) =
     Some (map (\<lambda>k. computeWindows_window sigs (Some (rs + int k * d))
                       (Some (min (rs + (int k + 1) * d) re)) k)
             [0..<nat ((re - rs + d - 1) div d)])"
  using loop_closed[OF assms(1,3,2), of sigs 0 "[]"] by (simp add: computeWindows_def)

lemma computeWindows_returns:
  assumes "is_Date rs" and "is_Date re" and "number_le (Fin 1) d"
  shows "\<exists>ws. computeWindows sigs rs re d = Some ws"
proof (cases "date_lt rs re")
  case False
  then show ?thesis by (simp add: computeWindows_empty_range)
next
  case True
  then obtain r e where re: "rs = Some r" "re = Some e" "r < e"
    using date_lt_Some by blast
  from assms(1,2) have "- MAX_TIME \<le> r" "e \<le> MAX_TIME" by (simp_all add: re is_Date_Some)
  from loop_returns[OF assms(3) this(2) this(1), of sigs 0 "[]"]
  show ?thesis unfolding computeWindows_def re .
qed

text \<open>Every window of a returned list was built by the loop body.\<close>

lemma loop_member:
  assumes "computeWindows_loop sigs re d cs i acc = Some ws"
  shows "\<forall>w \<in> set ws. w \<in> set acc \<or> (\<exists>a b k. w = computeWindows_window sigs (Some a) (Some b) k)"
  using assms
proof (induction rule: computeWindows_loop.raw_induct[rotated 1, consumes 1])
  case (1 f sigs re d cs i acc ws)
  show ?case
  proof (cases "date_lt cs re")
    case False
    with 1(2) show ?thesis by simp
  next
    case True
    then obtain a where a: "cs = Some a" using date_lt_Some by blast
    show ?thesis
    proof (cases "computeWindows_currentEnd cs d re")
      case None
      with True 1(2) show ?thesis by simp
    next
      case (Some c)
      with True 1(2) have "f sigs re d (Some c) (i + 1)
          (acc @ [computeWindows_window sigs cs (Some c) i]) = Some ws"
        by simp
      from 1(1)[OF this] show ?thesis unfolding a by auto
    qed
  qed
qed

lemma computeWindows_member:
  assumes "computeWindows sigs rs re d = Some ws" and "w \<in> set ws"
  shows "\<exists>a b k. w = computeWindows_window sigs (Some a) (Some b) k"
  using loop_member[OF assms(1)[unfolded computeWindows_def]] assms(2) by auto


lemma window_score:
  "score (computeWindows_window sigs a b k) =
     min 100 (sum_list (map computeSignalScore (findOverlaps sigs a b)))"
  by (simp add: computeWindows_window_def Let_def foldl_score_sum)

lemma window_status:
  "status (computeWindows_window sigs a b k) =
     getStatusFromScore (score (computeWindows_window sigs a b k))"
  by (simp add: computeWindows_window_def Let_def)

lemma window_annotation:
  "annotation (computeWindows_window sigs a b k) =
     generateAnnotation (findOverlaps sigs a b) (status (computeWindows_window sigs a b k))"
  by (simp add: computeWindows_window_def Let_def)

lemma computeSignalScore_fun:
  "computeSignalScore =
     (\<lambda>s. IMPACT_WEIGHTS (impactLevel s) * CONFIDENCE_MULTIPLIERS (confidenceLevel s))"
  by (simp add: fun_eq_iff computeSignalScore_def)

lemma computeSignalScore_nonneg: "0 \<le> computeSignalScore s"
  by (cases "impactLevel s"; cases "confidenceLevel s") (simp_all add: computeSignalScore_def)

lemma sample_windows:
  "computeWindows sample_signals (Some 0) (Some 5) (Fin 2) = Some [sample_w0, sample_w1, sample_w2]"
  using computeWindows_pos[of 2 0 5 sample_signals]
  by (simp add: MAX_TIME_def upt_conv_Cons sample_w0_def sample_w1_def sample_w2_def
        numeral_2_eq_2)

lemma sample_overlaps:
  "findOverlaps sample_signals (Some 0) (Some 2) = [sample_A, sample_B]"
  "findOverlaps sample_signals (Some 2) (Some 4) = [sample_B]"
  "findOverlaps sample_signals (Some 4) (Some 5) = []"
  by (simp_all add: findOverlaps_def sample_signals_def sample_A_def sample_B_def)

lemma sample_contributing:
  "contributingSignals sample_w0 = [sample_A, sample_B]"
  "contributingSignals sample_w1 = [sample_B]"
  "contributingSignals sample_w2 = []"
  by (simp_all add: sample_w0_def sample_w1_def sample_w2_def sample_overlaps)

lemma sample_ranges:
  "w_timeRange sample_w0 = \<lparr> range_start = Some 0, range_end = Some 2 \<rparr>"
  "w_timeRange sample_w1 = \<lparr> range_start = Some 2, range_end = Some 4 \<rparr>"
  "w_timeRange sample_w2 = \<lparr> range_start = Some 4, range_end = Some 5 \<rparr>"
  by (simp_all add: sample_w0_def sample_w1_def sample_w2_def)

lemma sample_scores:
  "score sample_w0 = 145 / 2"
  "score sample_w1 = 45 / 2"
  "score sample_w2 = 0"
  by (simp_all only: sample_w0_def sample_w1_def sample_w2_def window_score sample_overlaps)
     (simp_all add: computeSignalScore_def sample_A_def sample_B_def)

lemma sample_statuses:
  "status sample_w0 = avoid"
  "status sample_w1 = caution"
  "status sample_w2 = safer"
  using sample_scores
  by (simp_all add: sample_w0_def sample_w1_def sample_w2_def window_status
        getStatusFromScore_def STATUS_THRESHOLDS_safer_def STATUS_THRESHOLDS_caution_def)

section \<open>The claims\<close>

subsection \<open>C1: the score is a capped weighted sum\<close>

text \<open>
  C1. Every window that \<open>computeWindows\<close> returns has as score the minimum of 100 and the
  sum, over the signals of the input that overlap the window, of the impact weight times
  the confidence multiplier, with weights 10, 30, 50 and multipliers 0.5, 0.75, 1 for low,
  medium, high. For valid dates and a duration of at least 1 ms \<open>computeWindows\<close> does return.
\<close>

theorem computeWindows_score_weighted_sum:
  "(is_Date rs \<and> is_Date re \<and> number_le (Fin 1) d \<longrightarrow> computeWindows sigs rs re d \<noteq> None)
   \<and> (\<forall>ws w. computeWindows sigs rs re d = Some ws \<longrightarrow> w \<in> set ws \<longrightarrow>
         score w = min 100 (\<Sum>s \<leftarrow> filter (\<lambda>s.
               date_lt (range_start (timeRange s)) (range_end (w_timeRange w))
               \<and> date_lt (range_start (w_timeRange w)) (range_end (timeRange s))) sigs.
             IMPACT_WEIGHTS (impactLevel s) * CONFIDENCE_MULTIPLIERS (confidenceLevel s)))
   \<and> IMPACT_WEIGHTS low = 10 \<and> IMPACT_WEIGHTS medium = 30 \<and> IMPACT_WEIGHTS high = 50
   \<and> CONFIDENCE_MULTIPLIERS low = 1 / 2 \<and> CONFIDENCE_MULTIPLIERS medium = 3 / 4
   \<and> CONFIDENCE_MULTIPLIERS high = 1"
proof -
  have ret: "is_Date rs \<and> is_Date re \<and> number_le (Fin 1) d \<longrightarrow> computeWindows sigs rs re d \<noteq> None"
    using computeWindows_returns[of rs re d sigs] by auto
  have "score w = min 100 (\<Sum>s \<leftarrow> filter (\<lambda>s.
               date_lt (range_start (timeRange s)) (range_end (w_timeRange w))
               \<and> date_lt (range_start (w_timeRange w)) (range_end (timeRange s))) sigs.
             IMPACT_WEIGHTS (impactLevel s) * CONFIDENCE_MULTIPLIERS (confidenceLevel s))"
    if "computeWindows sigs rs re d = Some ws" "w \<in> set ws" for ws w
  proof -
    from computeWindows_member[OF that] obtain a b k
      where "w = computeWindows_window sigs (Some a) (Some b) k" by blast
    then show ?thesis
      by (simp add: window_score findOverlaps_def computeSignalScore_fun)
  qed
  with ret show ?thesis by simp
qed

theorem computeWindows_score_weighted_sum_witness:
  "computeWindows sample_signals (Some 0) (Some 5) (Fin 2) = Some [sample_w0, sample_w1, sample_w2]
   \<and> score sample_w0 = min 100 (50 * 1 + 30 * (3 / 4))
   \<and> score sample_w1 = min 100 (30 * (3 / 4))
   \<and> score sample_w2 = min 100 0"
proof -
  note h = sample_windows
  note t = computeWindows_score_weighted_sum[of "Some 0" "Some 5" "Fin 2" sample_signals,
      THEN conjunct2, THEN conjunct1, rule_format, OF h]
  have "score sample_w0 = min 100 (50 * 1 + 30 * (3 / 4))"
    using t[of sample_w0]
    by (simp add: sample_ranges sample_signals_def sample_A_def sample_B_def)
  moreover have "score sample_w1 = min 100 (30 * (3 / 4))"
    using t[of sample_w1]
    by (simp add: sample_ranges sample_signals_def sample_A_def sample_B_def)
  moreover have "score sample_w2 = min 100 0"
    using t[of sample_w2]
    by (simp add: sample_ranges sample_signals_def sample_A_def sample_B_def)
  ultimately show ?thesis using h by simp
qed

subsection \<open>C2 and C3: score range and status thresholds\<close>

lemma sum_scores_nonneg: "0 \<le> sum_list (map computeSignalScore xs)"
  by (induction xs) (simp_all add: computeSignalScore_nonneg)

lemma window_score_bounds:
  "0 \<le> score (computeWindows_window sigs a b k)"
  "score (computeWindows_window sigs a b k) \<le> 100"
  by (simp_all add: window_score sum_scores_nonneg)

lemma getStatusFromScore_iff:
  "getStatusFromScore x = safer \<longleftrightarrow> x \<le> 20"
  "getStatusFromScore x = caution \<longleftrightarrow> 20 < x \<and> x \<le> 50"
  "getStatusFromScore x = avoid \<longleftrightarrow> 50 < x"
  by (auto simp: getStatusFromScore_def STATUS_THRESHOLDS_safer_def
        STATUS_THRESHOLDS_caution_def)

text \<open>
  C2. For every list of signals, every range and every duration, the score of every window
  that \<open>computeWindows\<close> returns lies between 0 and 100 inclusive. For valid dates and a duration of at least 1 ms
  \<open>computeWindows\<close> does return.
\<close>

theorem computeWindows_score_range:
  "(is_Date rs \<and> is_Date re \<and> number_le (Fin 1) d \<longrightarrow> computeWindows sigs rs re d \<noteq> None)
   \<and> (\<forall>ws w. computeWindows sigs rs re d = Some ws \<longrightarrow> w \<in> set ws \<longrightarrow>
         0 \<le> score w \<and> score w \<le> 100)"
proof -
  have "is_Date rs \<and> is_Date re \<and> number_le (Fin 1) d \<longrightarrow> computeWindows sigs rs re d \<noteq> None"
    using computeWindows_returns[of rs re d sigs] by auto
  moreover have "0 \<le> score w \<and> score w \<le> 100"
    if "computeWindows sigs rs re d = Some ws" "w \<in> set ws" for ws w
    using computeWindows_member[OF that] window_score_bounds by blast
  ultimately show ?thesis by blast
qed

theorem computeWindows_score_range_witness:
  "computeWindows sample_signals (Some 0) (Some 5) (Fin 2) = Some [sample_w0, sample_w1, sample_w2]
   \<and> 0 \<le> score sample_w0
   \<and> score sample_w0 \<le> 100
   \<and> score sample_w0 = 145 / 2"
proof -
  note h = sample_windows
  note t = computeWindows_score_range[of "Some 0" "Some 5" "Fin 2" sample_signals,
      THEN conjunct2, rule_format, OF h,
      of sample_w0]
  from t h sample_scores(1) show ?thesis by simp
qed

text \<open>
  C3. Every window that \<open>computeWindows\<close> returns has exactly the status that the fixed
  thresholds give its score: \<open>safer\<close> if and only if the score is at most 20, \<open>caution\<close> if
  and only if it is above 20 and at most 50, \<open>avoid\<close> if and only if it is above 50.
\<close>

theorem computeWindows_status_thresholds:
  "(is_Date rs \<and> is_Date re \<and> number_le (Fin 1) d \<longrightarrow> computeWindows sigs rs re d \<noteq> None)
   \<and> (\<forall>ws w. computeWindows sigs rs re d = Some ws \<longrightarrow> w \<in> set ws \<longrightarrow>
         (status w = safer \<longleftrightarrow> score w \<le> 20)
         \<and> (status w = caution \<longleftrightarrow> 20 < score w \<and> score w \<le> 50)
         \<and> (status w = avoid \<longleftrightarrow> 50 < score w))"
proof -
  have "is_Date rs \<and> is_Date re \<and> number_le (Fin 1) d \<longrightarrow> computeWindows sigs rs re d \<noteq> None"
    using computeWindows_returns[of rs re d sigs] by auto
  moreover have "(status w = safer \<longleftrightarrow> score w \<le> 20)
         \<and> (status w = caution \<longleftrightarrow> 20 < score w \<and> score w \<le> 50)
         \<and> (status w = avoid \<longleftrightarrow> 50 < score w)"
    if "computeWindows sigs rs re d = Some ws" "w \<in> set ws" for ws w
  proof -
    from computeWindows_member[OF that] obtain a b k
      where w: "w = computeWindows_window sigs (Some a) (Some b) k" by blast
    show ?thesis
      unfolding w window_status[of sigs "Some a" "Some b" k]
      by (simp only: getStatusFromScore_iff)
  qed
  ultimately show ?thesis by blast
qed

theorem computeWindows_status_thresholds_witness:
  "computeWindows sample_signals (Some 0) (Some 5) (Fin 2) = Some [sample_w0, sample_w1, sample_w2]
   \<and> score sample_w0 = 145 / 2
   \<and> status sample_w0 = avoid
   \<and> score sample_w1 = 45 / 2
   \<and> status sample_w1 = caution
   \<and> score sample_w2 = 0
   \<and> status sample_w2 = safer"
proof -
  note h = sample_windows
  note t = computeWindows_status_thresholds[of "Some 0" "Some 5" "Fin 2" sample_signals,
      THEN conjunct2, rule_format, OF h]
  have "status sample_w0 = avoid" using t[of sample_w0] by (simp add: sample_scores)
  moreover have "status sample_w1 = caution" using t[of sample_w1] by (simp add: sample_scores)
  moreover have "status sample_w2 = safer" using t[of sample_w2] by (simp add: sample_scores)
  ultimately show ?thesis using h sample_scores by simp
qed

subsection \<open>C6: annotations\<close>

lemma lowImpactCount_eq:
  "int (length xs) - int (length (filter (\<lambda>s. impactLevel s = high) xs))
     - int (length (filter (\<lambda>s. impactLevel s = medium) xs))
   = int (length (filter (\<lambda>s. impactLevel s = low) xs))"
proof (induction xs)
  case Nil
  show ?case by simp
next
  case (Cons x xs)
  then show ?case by (cases "impactLevel x") simp_all
qed

lemma generateAnnotation_empty:
  "generateAnnotation [] st
     = ''No known disruptions during this window. Good opportunity for outreach.''"
  by (simp add: generateAnnotation_def)

lemma generateAnnotation_nonempty:
  assumes "ov \<noteq> []"
  shows "generateAnnotation ov st =
     (let h = filter (\<lambda>s. impactLevel s = high) ov;
          m = length (filter (\<lambda>s. impactLevel s = medium) ov);
          l = length (filter (\<lambda>s. impactLevel s = low) ov);
          listed =
            (if h \<noteq> [] then [toString (int (length h)) @ '' high-impact signal(s): ''
                                @ join '', '' (map title h)] else [])
            @ (if 0 < m then [toString (int m) @ '' medium-impact signal(s)''] else [])
            @ (if 0 < l then [toString (int l) @ '' low-impact signal(s)''] else [])
      in (case st of safer \<Rightarrow> ''Minor activity: ''
                   | caution \<Rightarrow> ''Moderate disruption: ''
                   | avoid \<Rightarrow> ''High disruption: '')
         @ join ''; '' listed
         @ (case st of safer \<Rightarrow> ''. Generally safe for outreach with awareness.''
                     | caution \<Rightarrow> ''. Proceed with flexibility and backup plans.''
                     | avoid \<Rightarrow> ''. Consider rescheduling if possible.''))"
  using assms
  unfolding generateAnnotation_def Let_def lowImpactCount_eq
  by (cases st) simp_all

lemma window_no_overlap:
  assumes "findOverlaps sigs a b = []"
  shows "score (computeWindows_window sigs a b k) = 0"
    and "status (computeWindows_window sigs a b k) = safer"
    and "annotation (computeWindows_window sigs a b k)
          = ''No known disruptions during this window. Good opportunity for outreach.''"
proof -
  show s: "score (computeWindows_window sigs a b k) = 0"
    using assms by (simp add: window_score)
  show "status (computeWindows_window sigs a b k) = safer"
    by (simp add: window_status s getStatusFromScore_def STATUS_THRESHOLDS_safer_def)
  show "annotation (computeWindows_window sigs a b k)
          = ''No known disruptions during this window. Good opportunity for outreach.''"
    using assms by (simp add: window_annotation generateAnnotation_empty)
qed

text \<open>
  C6. Every window that \<open>computeWindows\<close> returns carries as contributing signals the
  signals that overlap it, and an annotation fixed by them and by the status. With no
  overlapping signal the annotation is the text "No known disruptions during this window.
  Good opportunity for outreach.", the score is 0 and the status is \<open>safer\<close>. Otherwise the
  annotation starts with "Minor activity", "Moderate disruption" or "High disruption"
  according to the status, and lists the number of high-impact signals (with their
  titles), of medium-impact signals and of low-impact signals among the contributing
  signals, each number when it is positive. For valid dates and a duration of at least
  1 ms \<open>computeWindows\<close> does return.
\<close>

theorem computeWindows_annotation:
  "(is_Date rs \<and> is_Date re \<and> number_le (Fin 1) d \<longrightarrow> computeWindows sigs rs re d \<noteq> None)
   \<and> (\<forall>ws w. computeWindows sigs rs re d = Some ws \<longrightarrow> w \<in> set ws \<longrightarrow>
        contributingSignals w
          = findOverlaps sigs (range_start (w_timeRange w)) (range_end (w_timeRange w))
        \<and> (contributingSignals w = [] \<longrightarrow>
             annotation w
               = ''No known disruptions during this window. Good opportunity for outreach.''
             \<and> score w = 0 \<and> status w = safer)
        \<and> (contributingSignals w \<noteq> [] \<longrightarrow>
             annotation w =
               (let h = filter (\<lambda>s. impactLevel s = high) (contributingSignals w);
                    m = length (filter (\<lambda>s. impactLevel s = medium) (contributingSignals w));
                    l = length (filter (\<lambda>s. impactLevel s = low) (contributingSignals w));
                    listed =
                      (if h \<noteq> [] then [toString (int (length h)) @ '' high-impact signal(s): ''
                                          @ join '', '' (map title h)] else [])
                      @ (if 0 < m then [toString (int m) @ '' medium-impact signal(s)''] else [])
                      @ (if 0 < l then [toString (int l) @ '' low-impact signal(s)''] else [])
                in (case status w of safer \<Rightarrow> ''Minor activity: ''
                             | caution \<Rightarrow> ''Moderate disruption: ''
                             | avoid \<Rightarrow> ''High disruption: '')
                   @ join ''; '' listed
                   @ (case status w of safer \<Rightarrow> ''. Generally safe for outreach with awareness.''
                               | caution \<Rightarrow> ''. Proceed with flexibility and backup plans.''
                               | avoid \<Rightarrow> ''. Consider rescheduling if possible.''))))"
proof -
  have ret: "is_Date rs \<and> is_Date re \<and> number_le (Fin 1) d \<longrightarrow> computeWindows sigs rs re d \<noteq> None"
    using computeWindows_returns[of rs re d sigs] by auto
  have pw: "
        contributingSignals w
          = findOverlaps sigs (range_start (w_timeRange w)) (range_end (w_timeRange w))
        \<and> (contributingSignals w = [] \<longrightarrow>
             annotation w
               = ''No known disruptions during this window. Good opportunity for outreach.''
             \<and> score w = 0 \<and> status w = safer)
        \<and> (contributingSignals w \<noteq> [] \<longrightarrow>
             annotation w =
               (let h = filter (\<lambda>s. impactLevel s = high) (contributingSignals w);
                    m = length (filter (\<lambda>s. impactLevel s = medium) (contributingSignals w));
                    l = length (filter (\<lambda>s. impactLevel s = low) (contributingSignals w));
                    listed =
                      (if h \<noteq> [] then [toString (int (length h)) @ '' high-impact signal(s): ''
                                          @ join '', '' (map title h)] else [])
                      @ (if 0 < m then [toString (int m) @ '' medium-impact signal(s)''] else [])
                      @ (if 0 < l then [toString (int l) @ '' low-impact signal(s)''] else [])
                in (case status w of safer \<Rightarrow> ''Minor activity: ''
                             | caution \<Rightarrow> ''Moderate disruption: ''
                             | avoid \<Rightarrow> ''High disruption: '')
                   @ join ''; '' listed
                   @ (case status w of safer \<Rightarrow> ''. Generally safe for outreach with awareness.''
                               | caution \<Rightarrow> ''. Proceed with flexibility and backup plans.''
                               | avoid \<Rightarrow> ''. Consider rescheduling if possible.'')))"
    if h: "computeWindows sigs rs re d = Some ws" "w \<in> set ws" for ws w
  proof -
    from computeWindows_member[OF h] obtain a b k
      where w: "w = computeWindows_window sigs (Some a) (Some b) k" by blast
    have c: "contributingSignals w
          = findOverlaps sigs (range_start (w_timeRange w)) (range_end (w_timeRange w))"
      by (simp add: w)
    have e: "contributingSignals w = [] \<longrightarrow>
             annotation w
               = ''No known disruptions during this window. Good opportunity for outreach.''
             \<and> score w = 0 \<and> status w = safer"
      using window_no_overlap[of sigs "Some a" "Some b" k] by (simp add: w)
    have n: "annotation w = generateAnnotation (contributingSignals w) (status w)"
      by (simp add: w window_annotation)
    show ?thesis
    proof (cases "contributingSignals w = []")
      case True
      with c e show ?thesis by simp
    next
      case False
      show ?thesis
        using False c
        unfolding n generateAnnotation_nonempty[OF False, of "status w"]
        by simp
    qed
  qed
  from ret pw show ?thesis by blast
qed

theorem computeWindows_annotation_witness:
  "computeWindows sample_signals (Some 0) (Some 5) (Fin 2) = Some [sample_w0, sample_w1, sample_w2]
   \<and> contributingSignals sample_w0 = [sample_A, sample_B]
   \<and> status sample_w0 = avoid
   \<and> annotation sample_w0 = ''High disruption: 1 high-impact signal(s): Cleaning; 1 medium-impact signal(s). Consider rescheduling if possible.''
   \<and> contributingSignals sample_w1 = [sample_B]
   \<and> status sample_w1 = caution
   \<and> annotation sample_w1 = ''Moderate disruption: 1 medium-impact signal(s). Proceed with flexibility and backup plans.''
   \<and> contributingSignals sample_w2 = []
   \<and> annotation sample_w2 = ''No known disruptions during this window. Good opportunity for outreach.''
   \<and> score sample_w2 = 0 \<and> status sample_w2 = safer"
proof -
  note h = sample_windows
  note t = computeWindows_annotation[of "Some 0" "Some 5" "Fin 2" sample_signals,
      THEN conjunct2, rule_format, OF h]
  have a0: "annotation sample_w0 = ''High disruption: 1 high-impact signal(s): Cleaning; 1 medium-impact signal(s). Consider rescheduling if possible.''"
    using t[of sample_w0, THEN conjunct2, THEN conjunct2]
    by (simp add: sample_contributing sample_statuses sample_A_def sample_B_def toString_def)
  have a1: "annotation sample_w1 = ''Moderate disruption: 1 medium-impact signal(s). Proceed with flexibility and backup plans.''"
    using t[of sample_w1, THEN conjunct2, THEN conjunct2]
    by (simp add: sample_contributing sample_statuses sample_A_def sample_B_def toString_def)
  have a2: "annotation sample_w2 = ''No known disruptions during this window. Good opportunity for outreach.''
      \<and> score sample_w2 = 0 \<and> status sample_w2 = safer"
    using t[of sample_w2, THEN conjunct2, THEN conjunct1]
    by (simp add: sample_contributing)
  from h a0 a1 a2 sample_contributing sample_statuses(1,2)
  show ?thesis by simp
qed

subsection \<open>C9: strict and inclusive boundaries\<close>

lemma findOverlaps_touching:
  assumes "range_end (timeRange s) = ws \<or> range_start (timeRange s) = we"
  shows "s \<notin> set (findOverlaps sigs ws we)"
proof -
  have "\<not> date_lt x x" for x by (cases x) simp_all
  with assms show ?thesis by (auto simp: findOverlaps_def)
qed

lemma findOverlaps_removeAll:
  assumes "s \<notin> set (findOverlaps sigs ws we)"
  shows "findOverlaps (removeAll s sigs) ws we = findOverlaps sigs ws we"
  using assms by (induction sigs) (auto simp: findOverlaps_def)

text \<open>
  C9. Window membership is strict and range filtering is inclusive. A signal that only
  touches a window (its end is the window start, or its start is the window end) is not
  among the signals \<open>findOverlaps\<close> returns; for a window that \<open>computeWindows\<close> returns it
  is not a contributing signal, and the window is the one computed without the signal,
  so it adds nothing to the score. \<open>filterSignalsByDateRange\<close> keeps exactly the signals
  with \<open>signalStart <= end\<close> and \<open>signalEnd >= start\<close>, so it keeps a signal with valid
  dates that only touches the query range.
\<close>

theorem strict_window_inclusive_range:
  "(range_end (timeRange s) = wstart \<or> range_start (timeRange s) = wend \<longrightarrow>
      s \<notin> set (findOverlaps sigs wstart wend))
   \<and> (\<forall>ws w. computeWindows sigs rs re d = Some ws \<longrightarrow> w \<in> set ws \<longrightarrow>
         range_end (timeRange s) = range_start (w_timeRange w)
         \<or> range_start (timeRange s) = range_end (w_timeRange w) \<longrightarrow>
         s \<notin> set (contributingSignals w)
         \<and> (\<exists>k. w = computeWindows_window (removeAll s sigs)
                      (range_start (w_timeRange w)) (range_end (w_timeRange w)) k))
   \<and> (s \<in> set (filterSignalsByDateRange sigs qstart qend) \<longleftrightarrow>
        s \<in> set sigs \<and> date_le (range_start (timeRange s)) qend
        \<and> date_le qstart (range_end (timeRange s)))
   \<and> (s \<in> set sigs \<longrightarrow> date_le (range_start (timeRange s)) (range_end (timeRange s)) \<longrightarrow>
        (range_end (timeRange s) = qstart \<and> date_le qstart qend
         \<or> range_start (timeRange s) = qend \<and> date_le qstart qend) \<longrightarrow>
        s \<in> set (filterSignalsByDateRange sigs qstart qend))"
proof -
  have 1: "range_end (timeRange s) = wstart \<or> range_start (timeRange s) = wend \<longrightarrow>
      s \<notin> set (findOverlaps sigs wstart wend)"
    using findOverlaps_touching by blast
  have 2: "s \<notin> set (contributingSignals w)
         \<and> (\<exists>k. w = computeWindows_window (removeAll s sigs)
                      (range_start (w_timeRange w)) (range_end (w_timeRange w)) k)"
    if h: "computeWindows sigs rs re d = Some ws" "w \<in> set ws"
      and t: "range_end (timeRange s) = range_start (w_timeRange w)
         \<or> range_start (timeRange s) = range_end (w_timeRange w)" for ws w
  proof -
    from computeWindows_member[OF h] obtain a b k
      where w: "w = computeWindows_window sigs (Some a) (Some b) k" by blast
    from t have "range_end (timeRange s) = Some a \<or> range_start (timeRange s) = Some b"
      by (simp add: w)
    then have n: "s \<notin> set (findOverlaps sigs (Some a) (Some b))"
      by (rule findOverlaps_touching)
    have r: "computeWindows_window (removeAll s sigs) (Some a) (Some b) k
               = computeWindows_window sigs (Some a) (Some b) k"
      unfolding computeWindows_window_def findOverlaps_removeAll[OF n] ..
    have "\<exists>k. w = computeWindows_window (removeAll s sigs)
                      (range_start (w_timeRange w)) (range_end (w_timeRange w)) k"
      by (rule exI[of _ k]) (simp add: w r)
    moreover have "s \<notin> set (contributingSignals w)" using n by (simp add: w)
    ultimately show ?thesis by simp
  qed
  have 3: "s \<in> set (filterSignalsByDateRange sigs qstart qend) \<longleftrightarrow>
        s \<in> set sigs \<and> date_le (range_start (timeRange s)) qend
        \<and> date_le qstart (range_end (timeRange s))"
    by (simp add: filterSignalsByDateRange_def)
  have 4: "s \<in> set (filterSignalsByDateRange sigs qstart qend)"
    if "s \<in> set sigs" "date_le (range_start (timeRange s)) (range_end (timeRange s))"
      "range_end (timeRange s) = qstart \<and> date_le qstart qend
         \<or> range_start (timeRange s) = qend \<and> date_le qstart qend"
  proof -
    have tr: "date_le x z" if "date_le x y" "date_le y z" for x y z
      using that by (cases x; cases y; cases z) simp_all
    have rf: "date_le x x" if "date_le x y" for x y
      using that by (cases x; cases y) simp_all
    have rf': "date_le y y" if "date_le x y" for x y
      using that by (cases x; cases y) simp_all
    from that(3) show ?thesis
    proof
      assume a: "range_end (timeRange s) = qstart \<and> date_le qstart qend"
      with that(2) have "date_le (range_start (timeRange s)) qend" using tr by blast
      moreover from a have "date_le qstart (range_end (timeRange s))" using rf by auto
      ultimately show ?thesis using that(1) by (simp add: 3)
    next
      assume a: "range_start (timeRange s) = qend \<and> date_le qstart qend"
      with that(2) have "date_le qstart (range_end (timeRange s))" using tr by blast
      moreover from a have "date_le (range_start (timeRange s)) qend" using rf' by auto
      ultimately show ?thesis using that(1) by (simp add: 3)
    qed
  qed
  show ?thesis
    apply (intro conjI)
       apply (rule 1)
      apply (intro allI impI)
      apply (erule (2) 2)
     apply (rule 3)
    apply (intro impI)
    apply (erule (2) 4)
    done
qed

theorem strict_window_inclusive_range_witness:
  "range_end (timeRange sample_A) = range_start (w_timeRange sample_w1)
   \<and> computeWindows sample_signals (Some 0) (Some 5) (Fin 2) = Some [sample_w0, sample_w1, sample_w2]
   \<and> sample_A \<notin> set (findOverlaps sample_signals (Some 2) (Some 4))
   \<and> sample_A \<notin> set (contributingSignals sample_w1)
   \<and> score sample_w1 = 45 / 2
   \<and> sample_A \<in> set (filterSignalsByDateRange sample_signals (Some 2) (Some 4))"
proof -
  have e: "range_end (timeRange sample_A) = range_start (w_timeRange sample_w1)"
    by (simp add: sample_ranges sample_A_def)
  have e': "range_end (timeRange sample_A) = Some 2 \<or> range_start (timeRange sample_A) = Some 4"
    by (simp add: sample_A_def)
  note t = strict_window_inclusive_range[of sample_A "Some 2" "Some 4" sample_signals
      "Some 0" "Some 5" "Fin 2" "Some 2" "Some 4"]
  have a: "sample_A \<notin> set (findOverlaps sample_signals (Some 2) (Some 4))"
    using t[THEN conjunct1, rule_format, OF e'] .
  have m: "sample_w1 \<in> set [sample_w0, sample_w1, sample_w2]" by simp
  have b: "sample_A \<notin> set (contributingSignals sample_w1)"
    using t[THEN conjunct2, THEN conjunct1, rule_format, OF sample_windows m disjI1, OF e]
    by simp
  have m: "sample_A \<in> set sample_signals" by (simp add: sample_signals_def)
  have v: "date_le (range_start (timeRange sample_A)) (range_end (timeRange sample_A))"
    by (simp add: sample_A_def)
  have q: "range_end (timeRange sample_A) = Some 2 \<and> date_le (Some 2) (Some 4)"
    by (simp add: sample_A_def)
  have c: "sample_A \<in> set (filterSignalsByDateRange sample_signals (Some 2) (Some 4))"
    using t[THEN conjunct2, THEN conjunct2, THEN conjunct2, rule_format, OF m v disjI1, OF q] .
  show ?thesis
    apply (intro conjI)
         apply (rule e)
        apply (rule sample_windows)
       apply (rule a)
      apply (rule b)
     apply (rule sample_scores(2))
    apply (rule c)
    done
qed


subsection \<open>C8 and C5: the windows tile the range\<close>














subsection \<open>C10: scenario mode\<close>

text \<open>
  C10. Scenario mode only adds signals. Without it \<open>getAllSignals\<close> gives the base signals;
  with it, the base signals followed by \<open>megaEventSignals\<close>. So the base signals are a
  prefix and a subset of the scenario list, and every signal of \<open>megaEventSignals\<close> has
  the signal type \<open>megaEvent\<close>.
\<close>

theorem getAllSignals_scenario_adds:
  "getAllSignals cal False = getBaseSignals cal
   \<and> getAllSignals cal True = getBaseSignals cal @ megaEventSignals cal
   \<and> prefix (getBaseSignals cal) (getAllSignals cal True)
   \<and> set (getBaseSignals cal) \<subseteq> set (getAllSignals cal True)
   \<and> (\<forall>s \<in> set (megaEventSignals cal). signalType s = megaEvent)
   \<and> (\<forall>s \<in> set (getAllSignals cal True).
         s \<notin> set (getAllSignals cal False) \<longrightarrow> signalType s = megaEvent)"
proof -
  have m: "\<forall>s \<in> set (megaEventSignals cal). signalType s = megaEvent"
    by (simp add: megaEventSignals_def)
  have f: "getAllSignals cal False = getBaseSignals cal"
    and t: "getAllSignals cal True = getBaseSignals cal @ megaEventSignals cal"
    by (simp_all add: getAllSignals_def)
  from m show ?thesis unfolding f t by auto
qed

theorem getAllSignals_scenario_adds_witness:
  "hd (megaEventSignals sample_cal) \<in> set (getAllSignals sample_cal True)
   \<and> hd (megaEventSignals sample_cal) \<notin> set (getAllSignals sample_cal False)
   \<and> sid (hd (megaEventSignals sample_cal)) = ''mega-1''
   \<and> signalType (hd (megaEventSignals sample_cal)) = megaEvent
   \<and> length (getAllSignals sample_cal False) = 16
   \<and> length (getAllSignals sample_cal True) = 19"
proof -
  note defs = getAllSignals_def getBaseSignals_def megaEventSignals_def sanitationSignals_def
    publicEventSignals_def shelterSignals_def transitSignals_def
    serviceBottleneckSignals_def infrastructureSignals_def
  have i: "hd (megaEventSignals sample_cal) \<in> set (getAllSignals sample_cal True)"
    by (simp add: defs)
  have n: "hd (megaEventSignals sample_cal) \<notin> set (getAllSignals sample_cal False)"
    by (simp add: defs)
  have t: "signalType (hd (megaEventSignals sample_cal)) = megaEvent"
    using getAllSignals_scenario_adds[of sample_cal] i n by blast
  have l: "length (getAllSignals sample_cal False) = 16"
    "length (getAllSignals sample_cal True) = 19"
    "sid (hd (megaEventSignals sample_cal)) = ''mega-1''"
    by (simp_all add: defs)
  show ?thesis
    apply (intro conjI)
         apply (rule i)
        apply (rule n)
       apply (rule l(3))
      apply (rule t)
     apply (rule l(1))
    apply (rule l(2))
    done
qed

subsection \<open>C4: pairwise overlap detection\<close>

lemma inner_closed:
  "detectSignalOverlaps_inner ss i j acc =
     acc @ concat (map (\<lambda>q.
        if date_lt (range_start (timeRange (ss ! i))) (range_end (timeRange (ss ! q)))
           \<and> date_lt (range_start (timeRange (ss ! q))) (range_end (timeRange (ss ! i)))
        then [detectSignalOverlaps_overlap (ss ! i) (ss ! q)] else []) [j..<length ss])"
proof (induction ss i j acc rule: detectSignalOverlaps_inner.induct)
  case (1 ss i j acc)
  show ?case
  proof (cases "j < length ss")
    case False
    then show ?thesis by (subst detectSignalOverlaps_inner.simps) simp
  next
    case True
    then have u: "[j..<length ss] = j # [Suc j..<length ss]" by (rule upt_conv_Cons)
    show ?thesis
      using True 1
      by (subst detectSignalOverlaps_inner.simps) (simp add: u Let_def)
  qed
qed

lemma outer_closed:
  "detectSignalOverlaps_outer ss i acc =
     acc @ concat (map (\<lambda>p. concat (map (\<lambda>q.
        if date_lt (range_start (timeRange (ss ! p))) (range_end (timeRange (ss ! q)))
           \<and> date_lt (range_start (timeRange (ss ! q))) (range_end (timeRange (ss ! p)))
        then [detectSignalOverlaps_overlap (ss ! p) (ss ! q)] else []) [Suc p..<length ss]))
      [i..<length ss])"
proof (induction ss i acc rule: detectSignalOverlaps_outer.induct)
  case (1 ss i acc)
  show ?case
  proof (cases "i < length ss")
    case False
    then show ?thesis by (subst detectSignalOverlaps_outer.simps) simp
  next
    case True
    then have u: "[i..<length ss] = i # [Suc i..<length ss]" by (rule upt_conv_Cons)
    show ?thesis
      using True 1
      by (subst detectSignalOverlaps_outer.simps)
         (simp add: u inner_closed)
  qed
qed

lemma concat_if_single:
  "concat (map (\<lambda>q. if c q then [f q] else []) ys) = map f (filter c ys)"
  by (induction ys) simp_all

lemma concat_if_pairs:
  "concat (map (\<lambda>p. concat (map (\<lambda>q. if c p q then [f p q] else []) (g p))) xs) =
     map (\<lambda>(p, q). f p q)
       (filter (\<lambda>(p, q). c p q) (concat (map (\<lambda>p. map (Pair p) (g p)) xs)))"
  by (induction xs) (simp_all add: concat_if_single filter_map comp_def)

lemma index_pairs_set:
  "set (concat (map (\<lambda>p. map (Pair p) [Suc p..<n]) [0..<n])) = {(p, q). p < q \<and> q < n}"
proof (intro set_eqI iffI)
  fix x assume "x \<in> set (concat (map (\<lambda>p. map (Pair p) [Suc p..<n]) [0..<n]))"
  then show "x \<in> {(p, q). p < q \<and> q < n}" by auto
next
  fix x :: "nat \<times> nat" assume "x \<in> {(p, q). p < q \<and> q < n}"
  then obtain p q where x: "x = (p, q)" and pq: "p < q" "q < n" by auto
  then have "p \<in> set [0..<n]" and "x \<in> set (map (Pair p) [Suc p..<n])" by simp_all
  then show "x \<in> set (concat (map (\<lambda>p. map (Pair p) [Suc p..<n]) [0..<n]))"
    unfolding set_concat by (intro UN_I[of "map (Pair p) [Suc p..<n]"]) simp_all
qed

lemma index_pairs_distinct:
  "distinct (concat (map (\<lambda>p. map (Pair p) [Suc p..<n]) [i..<m]))"
  by (induction m) (auto simp: distinct_map inj_on_def)

lemma detectSignalOverlaps_filtered:
  "detectSignalOverlaps_outer ss 0 [] =
     map (\<lambda>(p, q). detectSignalOverlaps_overlap (ss ! p) (ss ! q))
       (filter (\<lambda>(p, q).
            date_lt (range_start (timeRange (ss ! p))) (range_end (timeRange (ss ! q)))
            \<and> date_lt (range_start (timeRange (ss ! q))) (range_end (timeRange (ss ! p))))
          (concat (map (\<lambda>p. map (Pair p) [Suc p..<length ss]) [0..<length ss])))"
  by (simp only: outer_closed append_Nil concat_if_pairs)

lemma filter_positions:
  "filter P xs = map (nth xs) (filter (\<lambda>p. P (xs ! p)) [0..<length xs])"
proof -
  have "filter P xs = filter P (map (nth xs) [0..<length xs])" by (simp only: map_nth)
  also have "\<dots> = map (nth xs) (filter (P \<circ> nth xs) [0..<length xs])" by (rule filter_map)
  finally show ?thesis by (simp add: comp_def)
qed

text \<open>
  C4. \<open>detectSignalOverlaps\<close> compares the medium- and high-impact signals pairwise. Its
  result lists, each exactly once, the pairs of positions \<open>p < q\<close> of the input whose
  signals both have impact medium or high and whose time ranges intersect
  (\<open>startA < endB\<close> and \<open>endA > startB\<close>): one overlap for each such pair, made of the two
  signals, the time range from \<open>max(startA, startB)\<close> to \<open>min(endA, endB)\<close>, and the
  combined impact \<open>high\<close> if one of the two is high-impact and \<open>medium\<close> otherwise. No
  overlap returned has a low-impact signal.
\<close>

theorem detectSignalOverlaps_pairs:
  "\<exists>ps. distinct ps
     \<and> set ps = {(p, q). p < q \<and> q < length sigs
           \<and> (impactLevel (sigs ! p) = medium \<or> impactLevel (sigs ! p) = high)
           \<and> (impactLevel (sigs ! q) = medium \<or> impactLevel (sigs ! q) = high)
           \<and> date_lt (range_start (timeRange (sigs ! p))) (range_end (timeRange (sigs ! q)))
           \<and> date_lt (range_start (timeRange (sigs ! q))) (range_end (timeRange (sigs ! p)))}
     \<and> detectSignalOverlaps sigs =
          map (\<lambda>(p, q).
            \<lparr> oid = ''overlap-'' @ sid (sigs ! p) @ ''-'' @ sid (sigs ! q),
              o_signals = [sigs ! p, sigs ! q],
              o_timeRange =
                \<lparr> range_start = Math_max (range_start (timeRange (sigs ! p)))
                                  (range_start (timeRange (sigs ! q))),
                  range_end = Math_min (range_end (timeRange (sigs ! p)))
                                (range_end (timeRange (sigs ! q))) \<rparr>,
              combinedImpact = (if impactLevel (sigs ! p) = high \<or> impactLevel (sigs ! q) = high
                                then high else medium),
              explanation = generateOverlapExplanation (sigs ! p) (sigs ! q) \<rparr>) ps
     \<and> (\<forall>ov \<in> set (detectSignalOverlaps sigs). \<forall>s \<in> set (o_signals ov).
           impactLevel s \<noteq> low)"
proof -
  define sg :: "Signal \<Rightarrow> bool" where "sg = (\<lambda>s. impactLevel s = medium \<or> impactLevel s = high)"
  define hit :: "Signal \<Rightarrow> Signal \<Rightarrow> bool" where "hit = (\<lambda>a b.
      date_lt (range_start (timeRange a)) (range_end (timeRange b))
      \<and> date_lt (range_start (timeRange b)) (range_end (timeRange a)))"
  define ss where "ss = filter sg sigs"
  define idx where "idx = filter (\<lambda>p. sg (sigs ! p)) [0..<length sigs]"
  define ps0 where "ps0 = filter (\<lambda>(k, l). hit (ss ! k) (ss ! l))
      (concat (map (\<lambda>p. map (Pair p) [Suc p..<length ss]) [0..<length ss]))"
  define ps where "ps = map (\<lambda>(k, l). (idx ! k, idx ! l)) ps0"
  define F where "F = (\<lambda>(p, q). detectSignalOverlaps_overlap (sigs ! p) (sigs ! q))"

  have ss_idx: "ss = map (nth sigs) idx"
    unfolding ss_def idx_def by (rule filter_positions)
  have len: "length idx = length ss" by (simp add: ss_idx)
  have at: "ss ! k = sigs ! (idx ! k)" if "k < length ss" for k
    using that by (simp add: ss_idx)
  have srt: "sorted_wrt (<) idx"
    unfolding idx_def by (intro sorted_wrt_filter sorted_wrt_upt)
  have mono: "idx ! k < idx ! l" if "k < l" "l < length ss" for k l
    using sorted_wrt_nth_less[OF srt, of k l] that len by simp
  have inj: "k = l" if "idx ! k = idx ! l" "k < length ss" "l < length ss" for k l
  proof (rule ccontr)
    assume "k \<noteq> l"
    then consider "k < l" | "l < k" by linarith
    then show False using mono[of k l] mono[of l k] that by cases simp_all
  qed
  have idx_mem: "idx ! k < length sigs \<and> sg (sigs ! (idx ! k))" if "k < length ss" for k
  proof -
    from that len have "idx ! k \<in> set idx" by simp
    then show ?thesis by (simp add: idx_def)
  qed
  have idx_ex: "\<exists>k < length ss. idx ! k = p" if "p < length sigs" "sg (sigs ! p)" for p
  proof -
    from that have "p \<in> set idx" by (simp add: idx_def)
    then show ?thesis by (simp only: in_set_conv_nth len)
  qed
  have ps0_mem: "(k, l) \<in> set ps0 \<longleftrightarrow> k < l \<and> l < length ss \<and> hit (ss ! k) (ss ! l)" for k l
    unfolding ps0_def set_filter index_pairs_set by simp
  have ps0_distinct: "distinct ps0"
    unfolding ps0_def by (intro distinct_filter index_pairs_distinct)

  have d: "distinct ps"
    unfolding ps_def distinct_map
  proof (intro conjI inj_onI)
    show "distinct ps0" by (rule ps0_distinct)
  next
    fix x y assume x: "x \<in> set ps0" and y: "y \<in> set ps0"
      and e: "(case x of (k, l) \<Rightarrow> (idx ! k, idx ! l)) = (case y of (k, l) \<Rightarrow> (idx ! k, idx ! l))"
    obtain k l where xk: "x = (k, l)" by (cases x)
    obtain k' l' where yk: "y = (k', l')" by (cases y)
    from x xk have b: "k < l" "l < length ss" by (simp_all add: ps0_mem)
    from y yk have b': "k' < l'" "l' < length ss" by (simp_all add: ps0_mem)
    from e xk yk have "idx ! k = idx ! k'" "idx ! l = idx ! l'" by simp_all
    with b b' have "k = k'" "l = l'" by (auto intro: inj)
    then show "x = y" by (simp add: xk yk)
  qed

  have s: "set ps = {(p, q). p < q \<and> q < length sigs \<and> sg (sigs ! p) \<and> sg (sigs ! q)
                       \<and> hit (sigs ! p) (sigs ! q)}"
  proof (intro set_eqI iffI)
    fix x assume "x \<in> set ps"
    then obtain k l where kl: "(k, l) \<in> set ps0" and x: "x = (idx ! k, idx ! l)"
      unfolding ps_def by auto
    from kl have b: "k < l" "l < length ss" "hit (ss ! k) (ss ! l)" by (simp_all add: ps0_mem)
    then have k: "k < length ss" by simp
    from mono[OF b(1,2)] idx_mem[OF k] idx_mem[OF b(2)] b(3) at[OF k] at[OF b(2)]
    show "x \<in> {(p, q). p < q \<and> q < length sigs \<and> sg (sigs ! p) \<and> sg (sigs ! q)
                       \<and> hit (sigs ! p) (sigs ! q)}"
      by (simp add: x)
  next
    fix x assume "x \<in> {(p, q). p < q \<and> q < length sigs \<and> sg (sigs ! p) \<and> sg (sigs ! q)
                       \<and> hit (sigs ! p) (sigs ! q)}"
    then obtain p q where x: "x = (p, q)" and pq: "p < q" "q < length sigs"
      and g: "sg (sigs ! p)" "sg (sigs ! q)" and h: "hit (sigs ! p) (sigs ! q)"
      by auto
    from pq have p: "p < length sigs" by simp
    from idx_ex[OF p g(1)] obtain k where k: "k < length ss" "idx ! k = p" by blast
    from idx_ex[OF pq(2) g(2)] obtain l where l: "l < length ss" "idx ! l = q" by blast
    have "k < l"
    proof (rule ccontr)
      assume "\<not> k < l"
      then consider "l < k" | "l = k" by linarith
      then show False using mono[of l k] k l pq(1) by cases auto
    qed
    moreover have "hit (ss ! k) (ss ! l)" using h at[OF k(1)] at[OF l(1)] k(2) l(2) by simp
    ultimately have "(k, l) \<in> set ps0" using l(1) by (simp add: ps0_mem)
    then have "(idx ! k, idx ! l) \<in> set ps" unfolding ps_def by force
    then show "x \<in> set ps" by (simp add: x k l)
  qed

  have r: "detectSignalOverlaps sigs = map F ps"
  proof -
    have "detectSignalOverlaps sigs = detectSignalOverlaps_outer ss 0 []"
      by (simp add: detectSignalOverlaps_def ss_def sg_def)
    also have "\<dots> = map (\<lambda>(p, q). detectSignalOverlaps_overlap (ss ! p) (ss ! q)) ps0"
      unfolding ps0_def hit_def by (rule detectSignalOverlaps_filtered)
    also have "\<dots> = map (F \<circ> (\<lambda>(k, l). (idx ! k, idx ! l))) ps0"
    proof (rule map_cong[OF refl])
      fix x assume x: "x \<in> set ps0"
      obtain k l where xk: "x = (k, l)" by (cases x)
      from x xk have b: "k < l" "l < length ss" by (simp_all add: ps0_mem)
      then have k: "k < length ss" by simp
      show "(case x of (p, q) \<Rightarrow> detectSignalOverlaps_overlap (ss ! p) (ss ! q))
              = (F \<circ> (\<lambda>(k, l). (idx ! k, idx ! l))) x"
        by (simp add: xk F_def at[OF k] at[OF b(2)])
    qed
    also have "\<dots> = map F ps" by (simp add: ps_def)
    finally show ?thesis .
  qed

  have nl: "\<forall>ov \<in> set (detectSignalOverlaps sigs). \<forall>s \<in> set (o_signals ov). impactLevel s \<noteq> low"
  proof (intro ballI)
    fix ov s assume "ov \<in> set (detectSignalOverlaps sigs)" and m: "s \<in> set (o_signals ov)"
    then obtain x where "x \<in> set ps" and ov: "ov = F x" unfolding r by auto
    then obtain p q where "sg (sigs ! p)" "sg (sigs ! q)" and x: "x = (p, q)"
      unfolding s by auto
    with m show "impactLevel s \<noteq> low"
      by (auto simp: ov x F_def detectSignalOverlaps_overlap_def Let_def sg_def)
  qed

  have F_eq: "F = (\<lambda>(p, q).
            \<lparr> oid = ''overlap-'' @ sid (sigs ! p) @ ''-'' @ sid (sigs ! q),
              o_signals = [sigs ! p, sigs ! q],
              o_timeRange =
                \<lparr> range_start = Math_max (range_start (timeRange (sigs ! p)))
                                  (range_start (timeRange (sigs ! q))),
                  range_end = Math_min (range_end (timeRange (sigs ! p)))
                                (range_end (timeRange (sigs ! q))) \<rparr>,
              combinedImpact = (if impactLevel (sigs ! p) = high \<or> impactLevel (sigs ! q) = high
                                then high else medium),
              explanation = generateOverlapExplanation (sigs ! p) (sigs ! q) \<rparr>)"
    by (simp add: F_def detectSignalOverlaps_overlap_def Let_def fun_eq_iff)

  show ?thesis
    apply (rule exI[of _ ps])
    apply (intro conjI)
       apply (rule d)
      apply (simp only: s sg_def hit_def)
     apply (simp only: r F_eq)
    apply (rule nl)
    done
qed

lemma sample_detect:
  "detectSignalOverlaps [sample_C, sample_A, sample_B] =
     [\<lparr> oid = ''overlap-a-b'', o_signals = [sample_A, sample_B],
        o_timeRange = \<lparr> range_start = Some 1, range_end = Some 2 \<rparr>,
        combinedImpact = high,
        explanation = ''Cleaning (sanitation activity) overlaps with Market (public event). Multiple disruptions increase unpredictability. Consider alternative windows or enhanced coordination.'' \<rparr>]"
  by (simp add: detectSignalOverlaps_def detectSignalOverlaps_outer.simps
        detectSignalOverlaps_inner.simps detectSignalOverlaps_overlap_def
        generateOverlapExplanation_def Let_def sample_A_def sample_B_def sample_C_def)

theorem detectSignalOverlaps_pairs_witness:
  "detectSignalOverlaps [sample_C, sample_A, sample_B] =
     [\<lparr> oid = ''overlap-a-b'', o_signals = [sample_A, sample_B],
        o_timeRange = \<lparr> range_start = Some 1, range_end = Some 2 \<rparr>,
        combinedImpact = high,
        explanation = ''Cleaning (sanitation activity) overlaps with Market (public event). Multiple disruptions increase unpredictability. Consider alternative windows or enhanced coordination.'' \<rparr>]
   \<and> impactLevel sample_C = low
   \<and> impactLevel sample_A \<noteq> low
   \<and> impactLevel sample_B \<noteq> low"
proof -
  from detectSignalOverlaps_pairs[of "[sample_C, sample_A, sample_B]"]
  have "\<forall>ov \<in> set (detectSignalOverlaps [sample_C, sample_A, sample_B]).
          \<forall>s \<in> set (o_signals ov). impactLevel s \<noteq> low"
    by (elim exE conjE)
  then have "impactLevel sample_A \<noteq> low" "impactLevel sample_B \<noteq> low"
    unfolding sample_detect by simp_all
  moreover have "impactLevel sample_C = low" by (simp add: sample_C_def)
  ultimately show ?thesis using sample_detect by simp
qed


subsection \<open>C7: the signals API route\<close>

lemma date_le_iff_not_lt:
  "x \<noteq> None \<Longrightarrow> y \<noteq> None \<Longrightarrow> date_le y x \<longleftrightarrow> \<not> date_lt x y"
  by (cases x; cases y) auto

lemma default_duration_at_least_one: "number_le (Fin 1) DEFAULT_WINDOW_DURATION_MS"
  by (simp add: DEFAULT_WINDOW_DURATION_MS_def)

lemma is_Date_GET_start: "is_Date (Some (env_now e)) \<Longrightarrow> is_Date (GET_start e rq)"
  unfolding GET_start_def using is_Date_new_Date by (simp del: is_Date.simps)

lemma is_Date_GET_end: "is_Date (GET_end e rq)"
  unfolding GET_end_def using is_Date_new_Date by (simp del: is_Date.simps)

text \<open>
  C7. With \<open>start\<close> and \<open>end\<close> the dates the handler takes from the request (the date of
  the parsed parameter when it is given and not empty; otherwise the current time for
  \<open>start\<close> and the date seven days after \<open>start\<close> for \<open>end\<close>): when one of them is not a
  valid date, or \<open>end\<close> is not strictly after \<open>start\<close>, the handler returns a response of
  status 400 whose body is an error message, with no signals, overlaps or windows.
  Otherwise it returns a response of status 200 with the signals filtered to the range,
  their overlaps, the windows of the range, and the meta object of the range, the
  scenario flag and the disclaimer. The current time is a valid date.
\<close>

theorem GET_validates_then_responds:
  "(GET_start e rq = None \<or> GET_end e rq = None \<or> \<not> date_lt (GET_start e rq) (GET_end e rq)
      \<longrightarrow> (\<exists>msg. GET e rq = Some \<lparr> http_status = 400, json = ErrorBody msg \<rparr>))
   \<and> (is_Date (Some (env_now e))
       \<and> GET_start e rq \<noteq> None \<and> GET_end e rq \<noteq> None \<and> date_lt (GET_start e rq) (GET_end e rq)
      \<longrightarrow> (\<exists>wins.
            computeWindows
              (filterSignalsByDateRange
                 (getAllSignals (env_cal e) (scenarioParam rq = Some ''on''))
                 (GET_start e rq) (GET_end e rq))
              (GET_start e rq) (GET_end e rq) DEFAULT_WINDOW_DURATION_MS = Some wins
            \<and> GET e rq = Some
               \<lparr> http_status = 200,
                 json = ApiBody
                   \<lparr> r_signals =
                       filterSignalsByDateRange
                         (getAllSignals (env_cal e) (scenarioParam rq = Some ''on''))
                         (GET_start e rq) (GET_end e rq),
                     r_overlaps =
                       detectSignalOverlaps
                         (filterSignalsByDateRange
                            (getAllSignals (env_cal e) (scenarioParam rq = Some ''on''))
                            (GET_start e rq) (GET_end e rq)),
                     r_windows = wins,
                     r_meta =
                       \<lparr> queryRange =
                           \<lparr> range_start = GET_start e rq, range_end = GET_end e rq \<rparr>,
                         scenarioMode = (scenarioParam rq = Some ''on''),
                         generatedAt = Some (env_generatedAt e),
                         disclaimer = ''PROTOTYPE DATA: All signals are simulated or based on delayed/public information. This tool does not provide real-time data, enforcement information, or individual tracking. Use for organizational planning purposes only. Verify conditions before outreach activities.'' \<rparr> \<rparr> \<rparr>))
   \<and> (\<forall>s. startParam rq = Some s \<and> s \<noteq> [] \<longrightarrow> GET_start e rq = new_Date (env_parse e s))
   \<and> (startParam rq = None \<or> startParam rq = Some [] \<longrightarrow> GET_start e rq = Some (env_now e))
   \<and> (\<forall>s. endParam rq = Some s \<and> s \<noteq> [] \<longrightarrow> GET_end e rq = new_Date (env_parse e s))
   \<and> (endParam rq = None \<or> endParam rq = Some [] \<longrightarrow>
        GET_end e rq
          = new_Date (js_plus (getTime (GET_start e rq)) (Fin (7 * 24 * 60 * 60 * 1000))))"
proof (intro conjI impI allI)
  assume a: "GET_start e rq = None \<or> GET_end e rq = None
               \<or> \<not> date_lt (GET_start e rq) (GET_end e rq)"
  from a show "\<exists>msg. GET e rq = Some \<lparr> http_status = 400, json = ErrorBody msg \<rparr>"
  proof (elim disjE)
    assume "GET_start e rq = None"
    then show ?thesis by (simp add: GET_def Let_def)
  next
    assume "GET_end e rq = None"
    then show ?thesis by (simp add: GET_def Let_def)
  next
    assume nl: "\<not> date_lt (GET_start e rq) (GET_end e rq)"
    show ?thesis
    proof (cases "GET_start e rq = None \<or> GET_end e rq = None")
      case True
      then show ?thesis by (simp add: GET_def Let_def)
    next
      case False
      then have v: "GET_start e rq \<noteq> None" "GET_end e rq \<noteq> None" by simp_all
      from nl have "date_le (GET_end e rq) (GET_start e rq)"
        by (simp add: date_le_iff_not_lt[OF v])
      with v show ?thesis by (simp add: GET_def Let_def)
    qed
  qed
next
  let ?inc = "scenarioParam rq = Some ''on''"
  let ?fs = "filterSignalsByDateRange (getAllSignals (env_cal e) ?inc)
               (GET_start e rq) (GET_end e rq)"
  assume a: "is_Date (Some (env_now e))
               \<and> GET_start e rq \<noteq> None \<and> GET_end e rq \<noteq> None
               \<and> date_lt (GET_start e rq) (GET_end e rq)"
  then have v: "GET_start e rq \<noteq> None" "GET_end e rq \<noteq> None"
    and lt: "date_lt (GET_start e rq) (GET_end e rq)"
    and now: "is_Date (Some (env_now e))" by simp_all
  from lt have n: "\<not> date_le (GET_end e rq) (GET_start e rq)"
    by (simp add: date_le_iff_not_lt[OF v])
  from computeWindows_returns[OF is_Date_GET_start[OF now, of rq] is_Date_GET_end[of e rq]
      default_duration_at_least_one, of ?fs]
  obtain wins where w: "computeWindows ?fs (GET_start e rq) (GET_end e rq)
                          DEFAULT_WINDOW_DURATION_MS = Some wins"
    by blast
  show "\<exists>wins. computeWindows ?fs (GET_start e rq) (GET_end e rq)
                    DEFAULT_WINDOW_DURATION_MS = Some wins
            \<and> GET e rq = Some
               \<lparr> http_status = 200,
                 json = ApiBody
                   \<lparr> r_signals = ?fs,
                     r_overlaps = detectSignalOverlaps ?fs,
                     r_windows = wins,
                     r_meta =
                       \<lparr> queryRange =
                           \<lparr> range_start = GET_start e rq, range_end = GET_end e rq \<rparr>,
                         scenarioMode = ?inc,
                         generatedAt = Some (env_generatedAt e),
                         disclaimer = ''PROTOTYPE DATA: All signals are simulated or based on delayed/public information. This tool does not provide real-time data, enforcement information, or individual tracking. Use for organizational planning purposes only. Verify conditions before outreach activities.'' \<rparr> \<rparr> \<rparr>"
    apply (rule exI[of _ wins])
    apply (rule conjI)
     apply (rule w)
    using v n w apply (simp add: GET_def Let_def)
    done
next
  fix s assume "startParam rq = Some s \<and> s \<noteq> []"
  then show "GET_start e rq = new_Date (env_parse e s)" by (simp add: GET_start_def)
next
  assume "startParam rq = None \<or> startParam rq = Some []"
  then show "GET_start e rq = Some (env_now e)" by (auto simp: GET_start_def)
next
  fix s assume "endParam rq = Some s \<and> s \<noteq> []"
  then show "GET_end e rq = new_Date (env_parse e s)" by (simp add: GET_end_def)
next
  assume "endParam rq = None \<or> endParam rq = Some []"
  then show "GET_end e rq
      = new_Date (js_plus (getTime (GET_start e rq)) (Fin (7 * 24 * 60 * 60 * 1000)))"
    by (auto simp: GET_end_def)
qed

lemma sample_filtered:
  "filterSignalsByDateRange (getAllSignals sample_cal False) (Some 0) (Some 14400000) =
     [\<lparr> sid = ''transit-1'', signalType = transitDisruption,
        title = ''Metro Purple Line Construction'',
        timeRange = \<lparr> range_start = Some 0, range_end = Some 691140000 \<rparr>,
        impactLevel = medium, confidenceLevel = high \<rparr>]"
  by (simp add: filterSignalsByDateRange_def getAllSignals_def getBaseSignals_def
        sanitationSignals_def publicEventSignals_def shelterSignals_def transitSignals_def
        serviceBottleneckSignals_def infrastructureSignals_def sample_cal_def Let_def)

theorem GET_validates_then_responds_witness:
  "GET_start sample_env sample_request_invalid = None
   \<and> GET sample_env sample_request_invalid
       = Some \<lparr> http_status = 400,
                 json = ErrorBody ''Invalid date format. Use ISO 8601 format.'' \<rparr>
   \<and> GET_start sample_env sample_request_reversed = Some 14400000
   \<and> GET_end sample_env sample_request_reversed = Some 0
   \<and> GET sample_env sample_request_reversed
       = Some \<lparr> http_status = 400, json = ErrorBody ''End date must be after start date.'' \<rparr>
   \<and> GET_start sample_env sample_request_limit = Some 8640000000000000
   \<and> GET_end sample_env sample_request_limit = None
   \<and> GET sample_env sample_request_limit
       = Some \<lparr> http_status = 400,
                 json = ErrorBody ''Invalid date format. Use ISO 8601 format.'' \<rparr>
   \<and> GET_start sample_env sample_request_valid = Some 0
   \<and> GET_end sample_env sample_request_valid = Some 14400000
   \<and> map_option http_status (GET sample_env sample_request_valid) = Some 200
   \<and> map_option (\<lambda>r. case json r of ErrorBody m \<Rightarrow> [] | ApiBody b \<Rightarrow> map sid (r_signals b))
         (GET sample_env sample_request_valid) = Some [''transit-1'']
   \<and> map_option (\<lambda>r. case json r of ErrorBody m \<Rightarrow> [] | ApiBody b \<Rightarrow> map score (r_windows b))
         (GET sample_env sample_request_valid) = Some [30, 30]"
proof -
  have s1: "GET_start sample_env sample_request_invalid = None"
    by (simp add: GET_start_def sample_env_def sample_request_invalid_def sample_parse_def)
  have s2: "GET_start sample_env sample_request_reversed = Some 14400000"
    "GET_end sample_env sample_request_reversed = Some 0"
    by (simp_all add: GET_start_def GET_end_def sample_env_def sample_request_reversed_def
          sample_parse_def MAX_TIME_def)
  have s3: "GET_start sample_env sample_request_valid = Some 0"
    "GET_end sample_env sample_request_valid = Some 14400000"
    by (simp_all add: GET_start_def GET_end_def sample_env_def sample_request_valid_def
          sample_parse_def MAX_TIME_def)
  have s4: "GET_start sample_env sample_request_limit = Some 8640000000000000"
    by (simp add: GET_start_def sample_env_def sample_request_limit_def sample_parse_def
          MAX_TIME_def)
  have s5: "GET_end sample_env sample_request_limit = None"
  proof -
    have "GET_end sample_env sample_request_limit
        = new_Date (js_plus (getTime (GET_start sample_env sample_request_limit))
            (Fin (7 * 24 * 60 * 60 * 1000)))"
      using GET_validates_then_responds[of sample_env sample_request_limit]
      by (simp add: sample_request_limit_def)
    also have "\<dots> = new_Date (double_round (of_int 8640000604800000))"
      by (simp add: s4)
    also have "\<dots> = new_Date (Fin (of_int 8640000604800000))"
      by (subst double_round_int) simp_all
    also have "\<dots> = None" by (simp add: MAX_TIME_def)
    finally show ?thesis .
  qed
  have e1: "GET sample_env sample_request_invalid
       = Some \<lparr> http_status = 400,
                 json = ErrorBody ''Invalid date format. Use ISO 8601 format.'' \<rparr>"
  proof -
    from GET_validates_then_responds[of sample_env sample_request_invalid, THEN conjunct1]
      s1
    obtain msg where m: "GET sample_env sample_request_invalid
        = Some \<lparr> http_status = 400, json = ErrorBody msg \<rparr>" by blast
    then have "msg = ''Invalid date format. Use ISO 8601 format.''"
      by (simp add: GET_def Let_def s1)
    with m show ?thesis by simp
  qed
  have e2: "GET sample_env sample_request_reversed
       = Some \<lparr> http_status = 400, json = ErrorBody ''End date must be after start date.'' \<rparr>"
  proof -
    have "\<not> date_lt (GET_start sample_env sample_request_reversed)
              (GET_end sample_env sample_request_reversed)"
      by (simp add: s2)
    with GET_validates_then_responds[of sample_env sample_request_reversed, THEN conjunct1]
    obtain msg where m: "GET sample_env sample_request_reversed
        = Some \<lparr> http_status = 400, json = ErrorBody msg \<rparr>" by blast
    then have "msg = ''End date must be after start date.''"
      by (simp add: GET_def Let_def s2)
    with m show ?thesis by simp
  qed
  have e3: "GET sample_env sample_request_limit
       = Some \<lparr> http_status = 400,
                 json = ErrorBody ''Invalid date format. Use ISO 8601 format.'' \<rparr>"
  proof -
    from GET_validates_then_responds[of sample_env sample_request_limit, THEN conjunct1]
      s5
    obtain msg where m: "GET sample_env sample_request_limit
        = Some \<lparr> http_status = 400, json = ErrorBody msg \<rparr>" by blast
    then have "msg = ''Invalid date format. Use ISO 8601 format.''"
      by (simp add: GET_def Let_def s5)
    with m show ?thesis by simp
  qed
  have ok: "is_Date (Some (env_now sample_env))
      \<and> GET_start sample_env sample_request_valid \<noteq> None
      \<and> GET_end sample_env sample_request_valid \<noteq> None
      \<and> date_lt (GET_start sample_env sample_request_valid)
           (GET_end sample_env sample_request_valid)"
  proof -
    have "is_Date (Some (env_now sample_env))" by (simp add: sample_env_def MAX_TIME_def)
    then show ?thesis by (simp add: s3)
  qed
  have sc: "scenarioParam sample_request_valid \<noteq> Some ''on''"
    "env_cal sample_env = sample_cal"
    by (simp_all add: sample_request_valid_def sample_env_def)
  from GET_validates_then_responds[of sample_env sample_request_valid,
      THEN conjunct2, THEN conjunct1, rule_format, OF ok]
  obtain wins where w: "computeWindows
       (filterSignalsByDateRange (getAllSignals sample_cal False) (Some 0) (Some 14400000))
       (Some 0) (Some 14400000) DEFAULT_WINDOW_DURATION_MS = Some wins"
    and g: "map_option http_status (GET sample_env sample_request_valid) = Some 200"
      "map_option (\<lambda>r. case json r of ErrorBody m \<Rightarrow> [] | ApiBody b \<Rightarrow> map sid (r_signals b))
         (GET sample_env sample_request_valid)
       = Some (map sid (filterSignalsByDateRange (getAllSignals sample_cal False)
                 (Some 0) (Some 14400000)))"
      "map_option (\<lambda>r. case json r of ErrorBody m \<Rightarrow> [] | ApiBody b \<Rightarrow> map score (r_windows b))
         (GET sample_env sample_request_valid) = Some (map score wins)"
    by (auto simp: s3 sc)
  have "computeWindows
       (filterSignalsByDateRange (getAllSignals sample_cal False) (Some 0) (Some 14400000))
       (Some 0) (Some 14400000) DEFAULT_WINDOW_DURATION_MS
     = Some [computeWindows_window
               (filterSignalsByDateRange (getAllSignals sample_cal False) (Some 0) (Some 14400000))
               (Some 0) (Some 7200000) 0,
             computeWindows_window
               (filterSignalsByDateRange (getAllSignals sample_cal False) (Some 0) (Some 14400000))
               (Some 7200000) (Some 14400000) 1]"
    using computeWindows_pos[of 7200000 0 14400000
        "filterSignalsByDateRange (getAllSignals sample_cal False) (Some 0) (Some 14400000)"]
    by (simp add: DEFAULT_WINDOW_DURATION_MS_def MAX_TIME_def upt_conv_Cons)
  with w have "map score wins = [30, 30]"
    by (auto simp: window_score sample_filtered findOverlaps_def computeSignalScore_def)
  with g have g': "map_option http_status (GET sample_env sample_request_valid) = Some 200
   \<and> map_option (\<lambda>r. case json r of ErrorBody m \<Rightarrow> [] | ApiBody b \<Rightarrow> map sid (r_signals b))
         (GET sample_env sample_request_valid) = Some [''transit-1'']
   \<and> map_option (\<lambda>r. case json r of ErrorBody m \<Rightarrow> [] | ApiBody b \<Rightarrow> map score (r_windows b))
         (GET sample_env sample_request_valid) = Some [30, 30]"
    by (simp add: sample_filtered)
  show ?thesis
    apply (intro conjI)
                apply (rule s1)
               apply (rule e1)
              apply (rule s2(1))
             apply (rule s2(2))
            apply (rule e2)
           apply (rule s4)
          apply (rule s5)
         apply (rule e3)
        apply (rule s3(1))
       apply (rule s3(2))
      apply (rule g'[THEN conjunct1])
     apply (rule g'[THEN conjunct2, THEN conjunct1])
    apply (rule g'[THEN conjunct2, THEN conjunct2])
    done
qed

end
